theory Spec2Isabelle
  imports Main "HOL-Library.Word" "HOL-Library.Sublist"
begin

section \<open>Go values used by the commit pipeline\<close>

text \<open>
  A Go \<open>error\<close> is either created with a message (\<open>errors.New\<close>, \<open>fmt.Errorf\<close>, or an
  error handed back by a collaborator) or wraps another error (\<open>errors.Wrap(err, msg)\<close>).
  \<open>Error_msg\<close> is the \<open>Error()\<close> method: a wrapped error prints as \<open>msg: cause\<close>.
  A nil error is \<open>None\<close> of \<open>error option\<close>.
\<close>

datatype error = Error string | Wrap error string

fun Error_msg :: "error \<Rightarrow> string" where
  "Error_msg (Error m) = m"
| "Error_msg (Wrap e m) = m @ '': '' @ Error_msg e"

text \<open>Go's \<open>int\<close> on the 64-bit targets of the build: arithmetic wraps around.\<close>

type_synonym go_int = "64 word"

type_synonym byte = "8 word"

subsection \<open>Package strings\<close>

definition HasPrefix :: "string \<Rightarrow> string \<Rightarrow> bool" where
  "HasPrefix s pre = prefix pre s"

definition HasSuffix :: "string \<Rightarrow> string \<Rightarrow> bool" where
  "HasSuffix s suf = suffix suf s"

fun Contains :: "string \<Rightarrow> string \<Rightarrow> bool" where
  "Contains [] substr = (substr = [])"
| "Contains (c # cs) substr = (prefix substr (c # cs) \<or> Contains cs substr)"

text \<open>\<open>strings.Split(s, sep)\<close> for a one-character separator, the only use in the sources
  modelled here (\<open>","\<close> and \<open>"/"\<close>): the result always has one more element than \<open>s\<close> has
  separators, so the empty string splits into one empty field.\<close>

fun Split :: "string \<Rightarrow> char \<Rightarrow> string list" where
  "Split [] sep = [[]]"
| "Split (c # cs) sep =
     (if c = sep then [] # Split cs sep
      else (case Split cs sep of [] \<Rightarrow> [[c]] | x # xs \<Rightarrow> (c # x) # xs))"

fun Join :: "string list \<Rightarrow> string \<Rightarrow> string" where
  "Join [] sep = []"
| "Join [x] sep = x"
| "Join (x # y # ys) sep = x @ sep @ Join (y # ys) sep"

definition TrimLeft :: "string \<Rightarrow> string \<Rightarrow> string" where
  "TrimLeft s cutset = dropWhile (\<lambda>c. c \<in> set cutset) s"

text \<open>\<open>%d\<close> of \<open>fmt\<close>: decimal digits, with a minus sign for negative numbers.\<close>

definition digit_char :: "nat \<Rightarrow> char" where
  "digit_char d = char_of (48 + d)"

function utoa :: "nat \<Rightarrow> string" where
  "utoa n = (if n < 10 then [digit_char n] else utoa (n div 10) @ [digit_char (n mod 10)])"
  by pat_completeness auto
termination
  by (relation "measure id") auto

definition itoa :: "int \<Rightarrow> string" where
  "itoa i = (if i < 0 then CHR ''-'' # utoa (nat (- i)) else utoa (nat i))"

text \<open>Integer division of Go truncates towards zero; the remainder takes the sign of the
  dividend. Both are only called below with a positive divisor.\<close>

definition go_div :: "int \<Rightarrow> int \<Rightarrow> int" where
  "go_div a b = sgn a * sgn b * (\<bar>a\<bar> div \<bar>b\<bar>)"

definition go_mod :: "int \<Rightarrow> int \<Rightarrow> int" where
  "go_mod a b = a - go_div a b * b"

section \<open>Package remote: the retry policy of pushes\<close>

definition defaultRetryAttempts :: int where
  "defaultRetryAttempts = 3"

text \<open>A \<open>time.Duration\<close> counts nanoseconds.\<close>

definition Second :: int where
  "Second = 1000000000"

definition defaultRetryInterval :: int where
  "defaultRetryInterval = Second * 2"

definition isErrHTTPResponseToHTTPSClient :: "error \<Rightarrow> bool" where
  "isErrHTTPResponseToHTTPSClient err =
     Contains (Error_msg err) ''server gave HTTP response to HTTPS client''"

definition isErrConnectionRefused :: "error \<Rightarrow> bool" where
  "isErrConnectionRefused err = Contains (Error_msg err) ''connect: connection refused''"

definition RetryWithHTTP :: "error option \<Rightarrow> bool" where
  "RetryWithHTTP err =
     (case err of None \<Rightarrow> False
      | Some e \<Rightarrow> isErrHTTPResponseToHTTPSClient e \<or> isErrConnectionRefused e)"

text \<open>
  \<open>WithRetry(op)\<close>. The operation is a state transformer that also returns its error;
  \<open>time.Sleep\<close> is the parameter \<open>sleep\<close>, the effect of waiting for a duration on the same
  state. The loop variables \<open>attempts\<close> and \<open>err\<close> are the arguments of the recursion.
\<close>

function WithRetry_loop ::
  "(int \<Rightarrow> 's \<Rightarrow> 's) \<Rightarrow> ('s \<Rightarrow> error option \<times> 's) \<Rightarrow> int \<Rightarrow> error option \<Rightarrow> 's
     \<Rightarrow> error option \<times> 's" where
  "WithRetry_loop sleep op attempts err s =
     (if attempts > 0 then
        (if err \<noteq> None \<and> RetryWithHTTP err then (err, s)
         else
           (case op (if err \<noteq> None then sleep defaultRetryInterval s else s) of
              (None, s') \<Rightarrow> (None, s')
            | (Some e, s') \<Rightarrow> WithRetry_loop sleep op (attempts - 1) (Some e) s'))
      else (err, s))"
  by pat_completeness auto
termination
  by (relation "measure (\<lambda>(sleep, op, attempts, err, s). nat attempts)") auto

definition WithRetry ::
  "(int \<Rightarrow> 's \<Rightarrow> 's) \<Rightarrow> ('s \<Rightarrow> error option \<times> 's) \<Rightarrow> 's \<Rightarrow> error option \<times> 's" where
  "WithRetry sleep op s = WithRetry_loop sleep op defaultRetryAttempts None s"

section \<open>Package workflow: the retry helper of the commit tasks\<close>

text \<open>
  \<open>withRetry(handle, total)\<close>: \<open>total\<close> is a Go \<open>int\<close>, decremented before every call of
  \<open>handle\<close>; the loop goes on while the call fails and the decremented counter is positive
  (a signed comparison).
\<close>

function withRetry ::
  "('s \<Rightarrow> error option \<times> 's) \<Rightarrow> go_int \<Rightarrow> 's \<Rightarrow> error option \<times> 's" where
  "withRetry handle ntotal s =
     (let ntotal1 = ntotal - 1 in
      case handle s of
        (None, s') \<Rightarrow> (None, s')
      | (Some err, s') \<Rightarrow>
          if 0 <s ntotal1 then withRetry handle ntotal1 s' else (Some err, s'))"
  by pat_completeness auto
termination
proof (relation "measure (\<lambda>(h, t, s). unat (t - 1))")
  show "wf (measure (\<lambda>(h :: 's \<Rightarrow> error option \<times> 's, t :: go_int, s :: 's). unat (t - 1)))"
    by simp
next
  fix handle :: "'s \<Rightarrow> error option \<times> 's" and ntotal x :: go_int and s y :: 's
  assume "x = ntotal - 1" and "0 <s x"
  then have "x \<noteq> 0" by auto
  then have "unat (x - 1) < unat x"
    by (simp add: unat_minus_one unat_gt_0)
  then show "((handle, x, y), handle, ntotal, s) \<in> measure (\<lambda>(h, t, s). unat (t - 1))"
    using \<open>x = ntotal - 1\<close> by simp
qed

text \<open>A handler that follows a script: its state is the number of calls made so far, and
  the \<open>n\<close>-th call (counting from 0) returns \<open>out n\<close>.\<close>

definition scripted :: "(nat \<Rightarrow> error option) \<Rightarrow> nat \<Rightarrow> error option \<times> nat" where
  "scripted out n = (out n, Suc n)"

text \<open>The state after \<open>k\<close> calls of a handler, whatever they return.\<close>

fun iter_handle :: "('s \<Rightarrow> error option \<times> 's) \<Rightarrow> nat \<Rightarrow> 's \<Rightarrow> 's" where
  "iter_handle handle 0 s = s"
| "iter_handle handle (Suc k) s = iter_handle handle k (snd (handle s))"

text \<open>The actions of a retried push that a caller can observe: an attempt and its result,
  or a pause of some nanoseconds.\<close>

datatype retry_action = Attempt "error option" | Slept int

definition logged_sleep :: "int \<Rightarrow> retry_action list \<times> nat \<Rightarrow> retry_action list \<times> nat" where
  "logged_sleep d = (\<lambda>(acts, n). (acts @ [Slept d], n))"

definition logged_op ::
  "(nat \<Rightarrow> error option) \<Rightarrow> retry_action list \<times> nat \<Rightarrow> error option \<times> retry_action list \<times> nat" where
  "logged_op out = (\<lambda>(acts, n). (out n, acts @ [Attempt (out n)], Suc n))"

text \<open>The log of \<open>n\<close> attempts that follow the script \<open>out\<close> with a pause of \<open>d\<close> nanoseconds
  between one attempt and the next.\<close>

fun retry_log :: "int \<Rightarrow> (nat \<Rightarrow> error option) \<Rightarrow> nat \<Rightarrow> retry_action list" where
  "retry_log d out 0 = []"
| "retry_log d out (Suc 0) = [Attempt (out 0)]"
| "retry_log d out (Suc (Suc n)) = retry_log d out (Suc n) @ [Slept d, Attempt (out (Suc n))]"

text \<open>The script of a handler that fails every time with the same error.\<close>

definition always_fails :: "error \<Rightarrow> nat \<Rightarrow> error option" where
  "always_fails e i = Some e"

text \<open>The script of a push that fails with a transient error and then, wrapped by its
  caller, with a refused connection.\<close>

definition refused_on_second :: "nat \<Rightarrow> error option" where
  "refused_on_second i =
     (if i = 0 then Some (Error ''unexpected EOF'')
      else Some (Wrap (Error ''dial tcp 127.0.0.1:5000: connect: connection refused'') ''push blob''))"

section \<open>Package backend: splitting a blob into the parts of a multipart upload\<close>

record FileChunk =
  chunk_Number :: int
  chunk_Offset :: int
  chunk_Size :: int

text \<open>The \<open>for i := int64(0); i < chunkN; i++\<close> loop of \<open>splitFileByPartSize\<close>.\<close>

function split_loop :: "int \<Rightarrow> int \<Rightarrow> int \<Rightarrow> FileChunk list \<Rightarrow> FileChunk list" where
  "split_loop i chunkN chunkSize chunks =
     (if i < chunkN then
        split_loop (i + 1) chunkN chunkSize
          (chunks @ [\<lparr>chunk_Number = i + 1, chunk_Offset = i * chunkSize, chunk_Size = chunkSize\<rparr>])
      else chunks)"
  by pat_completeness auto
termination
  by (relation "measure (\<lambda>(i, chunkN, chunkSize, chunks). nat (chunkN - i))") auto

definition splitFileByPartSize :: "int \<Rightarrow> int \<Rightarrow> error + FileChunk list" where
  "splitFileByPartSize blobSize chunkSize =
     (if chunkSize \<le> 0 then Inl (Error ''invalid chunk size'')
      else
        let chunkN = go_div blobSize chunkSize in
        if chunkN \<ge> 10000 then Inl (Error ''too many parts, please increase chunk size'')
        else
          let chunks = split_loop 0 chunkN chunkSize [] in
          if go_mod blobSize chunkSize > 0 then
            Inr (chunks @ [\<lparr>chunk_Number = int (length chunks) + 1,
                            chunk_Offset = int (length chunks) * chunkSize,
                            chunk_Size = go_mod blobSize chunkSize\<rparr>])
          else Inr chunks)"

text \<open>What the claim about the split asks of a chunk list for a blob of \<open>blobSize\<close> bytes.\<close>

definition chunks_numbered :: "FileChunk list \<Rightarrow> bool" where
  "chunks_numbered chunks = (map chunk_Number chunks = map (\<lambda>k. int k + 1) [0..<length chunks])"

definition chunks_contiguous :: "int \<Rightarrow> FileChunk list \<Rightarrow> bool" where
  "chunks_contiguous blobSize chunks =
     ((\<forall>k < length chunks. chunk_Offset (chunks ! k) = sum_list (map chunk_Size (take k chunks)))
      \<and> sum_list (map chunk_Size chunks) = max blobSize 0)"

definition chunks_fixed_size :: "int \<Rightarrow> FileChunk list \<Rightarrow> bool" where
  "chunks_fixed_size chunkSize chunks =
     ((\<forall>k < length chunks. 0 < chunk_Size (chunks ! k) \<and> chunk_Size (chunks ! k) \<le> chunkSize)
      \<and> (\<forall>k. Suc k < length chunks \<longrightarrow> chunk_Size (chunks ! k) = chunkSize))"

text \<open>The number of parts a blob needs: full chunks, and one more for a remainder.\<close>

definition parts_required :: "int \<Rightarrow> int \<Rightarrow> int" where
  "parts_required blobSize chunkSize =
     (if blobSize \<le> 0 then 0
      else blobSize div chunkSize + (if blobSize mod chunkSize = 0 then 0 else 1))"


definition parts_returned :: "error + FileChunk list \<Rightarrow> nat option" where
  "parts_returned r = (case r of Inl e \<Rightarrow> None | Inr chunks \<Rightarrow> Some (length chunks))"

text \<open>The first \<open>n\<close> chunks of full size, as the loop builds them.\<close>

definition full_chunks :: "int \<Rightarrow> nat \<Rightarrow> FileChunk list" where
  "full_chunks c n =
     map (\<lambda>k. \<lparr>chunk_Number = int k + 1, chunk_Offset = int k * c, chunk_Size = c\<rparr>) [0 ..< n]"

section \<open>Package workflow: bind mounts for the include paths\<close>

text \<open>\<open>container.Mount\<close>, a bind mount of the inspected container, and \<open>mount.Mount\<close> of
  containerd, the mount that \<open>prepareMounts\<close> prepares.\<close>

record Mount =
  Destination :: string
  Source :: string

record mount_Mount =
  Type :: string
  mnt_Source :: string
  Target :: string
  Options :: "string list"

text \<open>\<open>filepath.IsAbs\<close> on Unix.\<close>

definition IsAbs :: "string \<Rightarrow> bool" where
  "IsAbs path = HasPrefix path ''/''"

text \<open>The closure \<open>findMount\<close>: \<open>matched\<close> is the pointer into the slice, nil at first.\<close>

fun findMount_loop :: "Mount list \<Rightarrow> string \<Rightarrow> Mount option \<Rightarrow> Mount option" where
  "findMount_loop [] targetPath matched = matched"
| "findMount_loop (m # mounts) targetPath matched =
     findMount_loop mounts targetPath
       (if HasPrefix targetPath (Destination m) then
          (case matched of
             None \<Rightarrow> Some m
           | Some old \<Rightarrow> if length (Destination old) \<le> length (Destination m) then Some m else Some old)
        else matched)"

definition findMount :: "Mount list \<Rightarrow> string \<Rightarrow> Mount option" where
  "findMount mounts targetPath = findMount_loop mounts targetPath None"

text \<open>
  \<open>prepareMounts\<close>. \<open>filepath.Rel\<close> and \<open>filepath.Join\<close> of the standard library are the
  parameters \<open>Rel\<close> and \<open>JoinPath\<close>; the loop over the target paths carries the slice
  \<open>targetMounts\<close>.
\<close>

fun prepareMounts_loop ::
  "(string \<Rightarrow> string \<Rightarrow> error + string) \<Rightarrow> (string list \<Rightarrow> string) \<Rightarrow> Mount list
     \<Rightarrow> string list \<Rightarrow> mount_Mount list \<Rightarrow> error + mount_Mount list" where
  "prepareMounts_loop Rel JoinPath containerMounts [] targetMounts = Inr targetMounts"
| "prepareMounts_loop Rel JoinPath containerMounts (targetPath # rest) targetMounts =
     (if \<not> IsAbs targetPath then Inl (Error (''not a absolute path: '' @ targetPath))
      else
        (case findMount containerMounts targetPath of
           None \<Rightarrow> Inl (Error (''not found mount path: '' @ targetPath))
         | Some sourceMount \<Rightarrow>
             (case Rel (Destination sourceMount) targetPath of
                Inl err \<Rightarrow> Inl (Wrap err (''get rel path for '' @ targetPath))
              | Inr hostBase \<Rightarrow>
                  let hostPath = JoinPath [Source sourceMount, hostBase];
                      target = TrimLeft targetPath ''/''
                  in prepareMounts_loop Rel JoinPath containerMounts rest
                       (targetMounts @
                          [\<lparr>Type = ''bind'', mnt_Source = hostPath, Target = target,
                            Options = [''ro'', ''rbind'']\<rparr>]))))"

definition prepareMounts ::
  "(string \<Rightarrow> string \<Rightarrow> error + string) \<Rightarrow> (string list \<Rightarrow> string) \<Rightarrow> Mount list
     \<Rightarrow> string list \<Rightarrow> error + mount_Mount list" where
  "prepareMounts Rel JoinPath containerMounts targetPaths =
     prepareMounts_loop Rel JoinPath containerMounts targetPaths []"

text \<open>The mount that \<open>prepareMounts\<close> builds for the target path \<open>p\<close> from the container
  mount \<open>m\<close>, with \<open>r\<close> the path of the target relative to the destination.\<close>

definition bind_for :: "(string list \<Rightarrow> string) \<Rightarrow> Mount \<Rightarrow> string \<Rightarrow> string \<Rightarrow> mount_Mount" where
  "bind_for JoinPath m r p =
     \<lparr>Type = ''bind'', mnt_Source = JoinPath [Source m, r],
      Target = dropWhile (\<lambda>c. c = CHR ''/'') p, Options = [''ro'', ''rbind'']\<rparr>"

text \<open>What the closure \<open>findMount\<close> computes: a container mount whose destination is a
  prefix of the target path as a string, which is the test of \<open>strings.HasPrefix\<close>, and is
  as long as any destination that is. This is not the relation of the claim: the
  destination \<open>/data/foo\<close> is such a prefix of \<open>/data/foobar\<close>.\<close>

definition longest_HasPrefix_mount :: "Mount list \<Rightarrow> string \<Rightarrow> Mount \<Rightarrow> bool" where
  "longest_HasPrefix_mount mounts p m =
     (m \<in> set mounts \<and> HasPrefix p (Destination m)
      \<and> (\<forall>m' \<in> set mounts. HasPrefix p (Destination m')
            \<longrightarrow> length (Destination m') \<le> length (Destination m)))"

text \<open>The relation of the claim, in its words: a path lies under a destination when it is
  the destination, or goes on from it with a further path element.\<close>

definition lies_under :: "string \<Rightarrow> string \<Rightarrow> bool" where
  "lies_under d p = (p = d \<or> prefix (d @ ''/'') p \<or> (d = ''/'' \<and> prefix ''/'' p))"

text \<open>Two container mounts, the destination of one a string prefix of the other's and of
  the sibling path \<open>/data/foobar\<close>.\<close>

definition data_h1 :: Mount where
  "data_h1 = \<lparr>Destination = ''/data'', Source = ''/h1''\<rparr>"

definition data_foo_h2 :: Mount where
  "data_foo_h2 = \<lparr>Destination = ''/data/foo'', Source = ''/h2''\<rparr>"

text \<open>The container mount and the two include paths of the scenario of the mount-path
  rewrite.\<close>

definition guest_x :: Mount where
  "guest_x = \<lparr>Destination = ''/guest/x'', Source = ''/host/x''\<rparr>"

subsection \<open>Package path/filepath on Unix\<close>

text \<open>
  The standard library is not part of the repository. These definitions follow its
  documented behaviour on Unix and serve to run \<open>prepareMounts\<close> on concrete paths:
  \<open>Clean\<close> drops empty and \<open>.\<close> elements, resolves \<open>..\<close> against the element before it and
  drops \<open>..\<close> at the root; \<open>Join\<close> ignores leading empty elements and cleans the result;
  \<open>Rel\<close> strips the elements that base and target share and climbs out of what is left of
  the base.
\<close>

fun clean_elems :: "bool \<Rightarrow> string list \<Rightarrow> string list \<Rightarrow> string list" where
  "clean_elems rooted [] acc = rev acc"
| "clean_elems rooted (e # es) acc =
     (if e = [] \<or> e = ''.'' then clean_elems rooted es acc
      else if e = ''..'' then
        (case acc of
           [] \<Rightarrow> clean_elems rooted es (if rooted then [] else [''..''])
         | a # as \<Rightarrow> clean_elems rooted es (if a = ''..'' then e # acc else as))
      else clean_elems rooted es (e # acc))"

definition Clean :: "string \<Rightarrow> string" where
  "Clean path =
     (let rooted = HasPrefix path ''/'';
          out = Join (clean_elems rooted (Split path CHR ''/'') []) ''/''
      in if rooted then CHR ''/'' # out else if out = [] then ''.'' else out)"

definition filepath_Join :: "string list \<Rightarrow> string" where
  "filepath_Join elem =
     (case dropWhile (\<lambda>e. e = []) elem of [] \<Rightarrow> [] | es \<Rightarrow> Clean (Join es ''/''))"

text \<open>The elements of a cleaned path as \<open>Rel\<close> walks them: a rooted path starts with an
  empty element, and the root alone is that element only.\<close>

definition rel_elems :: "string \<Rightarrow> string list" where
  "rel_elems path = (if path = [] then [] else if path = ''/'' then [[]] else Split path CHR ''/'')"

fun rel_strip :: "string list \<Rightarrow> string list \<Rightarrow> bool \<times> string list \<times> string list" where
  "rel_strip (b # bs) (t # ts) = (if b = t then rel_strip bs ts else (True, b # bs, t # ts))"
| "rel_strip bs ts = (False, bs, ts)"

definition filepath_Rel :: "string \<Rightarrow> string \<Rightarrow> error + string" where
  "filepath_Rel basepath targpath =
     (let base0 = Clean basepath; targ = Clean targpath in
      if targ = base0 then Inr ''.''
      else
        let base = (if base0 = ''.'' then [] else base0) in
        if HasPrefix base ''/'' \<noteq> HasPrefix targ ''/'' then
          Inl (Error (''Rel: can't make '' @ targpath @ '' relative to '' @ basepath))
        else
          (case rel_strip (rel_elems base) (rel_elems targ) of
             (differ, bs, ts) \<Rightarrow>
               if differ \<and> hd bs = ''..'' then
                 Inl (Error (''Rel: can't make '' @ targpath @ '' relative to '' @ basepath))
               else if bs \<noteq> [] then Inr (Join (map (\<lambda>b. ''..'') bs @ ts) ''/'')
               else Inr (Join ts ''/'')))"

section \<open>Package distribution: the reference of the target image\<close>

text \<open>
  References are parsed by containerd's \<open>reference/docker\<close>, which is not part of the
  repository. A parsed reference is a repository name with an optional tag and an optional
  digest; \<open>String\<close> prints it, \<open>Digested\<close> is the type test \<open>named.(docker.Digested)\<close>, and
  \<open>TagNameOnly\<close> gives the tag \<open>latest\<close> to a reference with neither tag nor digest. The
  parser itself, \<open>docker.ParseDockerRef\<close>, is a parameter of \<open>AppendNydusSuffix\<close>.
\<close>

record Named =
  ref_name :: string
  ref_tag :: "string option"
  ref_digest :: "string option"

definition String :: "Named \<Rightarrow> string" where
  "String named =
     ref_name named
     @ (case ref_tag named of None \<Rightarrow> [] | Some t \<Rightarrow> CHR '':'' # t)
     @ (case ref_digest named of None \<Rightarrow> [] | Some d \<Rightarrow> CHR ''@'' # d)"

definition Digested :: "Named \<Rightarrow> bool" where
  "Digested named = (ref_digest named \<noteq> None)"

definition TagNameOnly :: "Named \<Rightarrow> Named" where
  "TagNameOnly named =
     (if ref_tag named = None \<and> ref_digest named = None then named\<lparr>ref_tag := Some ''latest''\<rparr>
      else named)"

definition NydusRefSuffix :: string where
  "NydusRefSuffix = ''_nydus_v2''"

definition AppendNydusSuffix :: "(string \<Rightarrow> error + Named) \<Rightarrow> string \<Rightarrow> error + string" where
  "AppendNydusSuffix ParseDockerRef ref =
     (case ParseDockerRef ref of
        Inl err \<Rightarrow> Inl (Wrap err (''invalid image reference: '' @ ref))
      | Inr named \<Rightarrow>
          if Digested named then Inl (Error (''unsupported digested image reference: '' @ ref))
          else
            let named = TagNameOnly named in
            if HasSuffix (String named) NydusRefSuffix then Inr ref
            else Inr (String named @ NydusRefSuffix))"

definition HasNydusSuffix :: "(string \<Rightarrow> error + Named) \<Rightarrow> string \<Rightarrow> error + bool" where
  "HasNydusSuffix ParseDockerRef ref =
     (case ParseDockerRef ref of
        Inl err \<Rightarrow> Inl (Wrap err (''invalid image reference: '' @ ref))
      | Inr named \<Rightarrow>
          if Digested named then Inl (Error (''unsupported digested image reference: '' @ ref))
          else Inr (HasSuffix (String (TagNameOnly named)) NydusRefSuffix))"


subsection \<open>The grammar of references\<close>

text \<open>
  A rendering of the parser for running \<open>AppendNydusSuffix\<close> on concrete references. It
  follows the published grammar of image references:
  \<^verbatim>\<open>reference := name [ ":" tag ] [ "@" digest ]\<close>,
  \<^verbatim>\<open>name := [domain "/"] path-component ["/" path-component]*\<close>, at most 255 characters,
  \<^verbatim>\<open>path-component := [a-z0-9]+ (( [_.] | "__" | "-"+ ) [a-z0-9]+)*\<close>,
  \<^verbatim>\<open>tag := [A-Za-z0-9_][A-Za-z0-9_.-]{0,127}\<close>,
  and the normalisation of familiar names: the default domain \<open>docker.io\<close> and, for its
  one-element names, the repository prefix \<open>library/\<close>. Of a digest only the shape
  \<open>algorithm:hex\<close> with at least 32 hexadecimal digits is checked.
\<close>

definition is_digit :: "char \<Rightarrow> bool" where
  "is_digit c = (48 \<le> (of_char c :: nat) \<and> (of_char c :: nat) \<le> 57)"

definition is_lower :: "char \<Rightarrow> bool" where
  "is_lower c = (97 \<le> (of_char c :: nat) \<and> (of_char c :: nat) \<le> 122)"

definition is_upper :: "char \<Rightarrow> bool" where
  "is_upper c = (65 \<le> (of_char c :: nat) \<and> (of_char c :: nat) \<le> 90)"

definition is_word_char :: "char \<Rightarrow> bool" where
  "is_word_char c = (is_digit c \<or> is_lower c \<or> is_upper c \<or> c = CHR ''_'')"

definition is_hex :: "char \<Rightarrow> bool" where
  "is_hex c = (is_digit c \<or> (97 \<le> (of_char c :: nat) \<and> (of_char c :: nat) \<le> 102)
                \<or> (65 \<le> (of_char c :: nat) \<and> (of_char c :: nat) \<le> 70))"

definition valid_separator :: "string \<Rightarrow> bool" where
  "valid_separator sep =
     (sep = ''.'' \<or> sep = ''_'' \<or> sep = ''__'' \<or> (sep \<noteq> [] \<and> list_all (\<lambda>c. c = CHR ''-'') sep))"

fun path_component_scan :: "string \<Rightarrow> string \<Rightarrow> bool" where
  "path_component_scan sep [] = (sep = [])"
| "path_component_scan sep (c # cs) =
     (if is_lower c \<or> is_digit c then (sep = [] \<or> valid_separator sep) \<and> path_component_scan [] cs
      else path_component_scan (sep @ [c]) cs)"

definition valid_path_component :: "string \<Rightarrow> bool" where
  "valid_path_component elem =
     (case elem of [] \<Rightarrow> False | c # cs \<Rightarrow> (is_lower c \<or> is_digit c) \<and> path_component_scan [] elem)"

definition valid_domain_component :: "string \<Rightarrow> bool" where
  "valid_domain_component elem =
     (case elem of [] \<Rightarrow> False
      | c # cs \<Rightarrow>
          list_all (\<lambda>x. is_digit x \<or> is_lower x \<or> is_upper x \<or> x = CHR ''-'') elem
          \<and> c \<noteq> CHR ''-'' \<and> last elem \<noteq> CHR ''-'')"

definition valid_domain :: "string \<Rightarrow> bool" where
  "valid_domain d =
     (case Split d CHR '':'' of
        [host] \<Rightarrow> list_all valid_domain_component (Split host CHR ''.'')
      | [host, port] \<Rightarrow>
          list_all valid_domain_component (Split host CHR ''.'') \<and> port \<noteq> [] \<and> list_all is_digit port
      | _ \<Rightarrow> False)"

definition valid_name :: "string \<Rightarrow> bool" where
  "valid_name name =
     (case Split name CHR ''/'' of
        [] \<Rightarrow> False
      | [c] \<Rightarrow> valid_path_component c
      | c # cs \<Rightarrow> (valid_domain c \<or> valid_path_component c) \<and> list_all valid_path_component cs)"

definition valid_tag :: "string \<Rightarrow> bool" where
  "valid_tag t =
     (case t of [] \<Rightarrow> False
      | c # cs \<Rightarrow>
          is_word_char c \<and> list_all (\<lambda>x. is_word_char x \<or> x = CHR ''.'' \<or> x = CHR ''-'') cs
          \<and> length t \<le> 128)"

definition valid_digest :: "string \<Rightarrow> bool" where
  "valid_digest d =
     (case Split d CHR '':'' of
        [alg, hex] \<Rightarrow>
          (case alg of [] \<Rightarrow> False
           | c # cs \<Rightarrow> (is_lower c \<or> is_upper c)
               \<and> list_all (\<lambda>x. is_word_char x \<or> x = CHR ''-'' \<or> x = CHR ''+'' \<or> x = CHR ''.'') alg)
          \<and> 32 \<le> length hex \<and> list_all is_hex hex
      | _ \<Rightarrow> False)"

text \<open>\<open>Parse\<close>: cut the digest off at \<open>@\<close>, then the tag at the colon of the last element of
  what remains, and check the three parts.\<close>

definition reference_Parse :: "string \<Rightarrow> error + Named" where
  "reference_Parse s =
     (let (nt, dg) = (case Split s CHR ''@'' of
                        [x] \<Rightarrow> (x, None) | [x, d] \<Rightarrow> (x, Some d) | _ \<Rightarrow> ([], Some []));
          elems = Split nt CHR ''/'';
          (lastname, tg) = (case Split (last elems) CHR '':'' of
                              [x] \<Rightarrow> (x, None) | [x, t] \<Rightarrow> (x, Some t) | _ \<Rightarrow> ([], Some []));
          name = Join (butlast elems @ [lastname]) ''/''
      in if s = [] then Inl (Error ''repository name must have at least one component'')
         else if \<not> valid_name name
                 \<or> (case tg of None \<Rightarrow> False | Some t \<Rightarrow> \<not> valid_tag t)
                 \<or> (case dg of None \<Rightarrow> False | Some d \<Rightarrow> \<not> valid_digest d)
         then Inl (Error ''invalid reference format'')
         else if 255 < length name then
           Inl (Error ''repository name must not be more than 255 characters'')
         else Inr \<lparr>ref_name = name, ref_tag = tg, ref_digest = dg\<rparr>)"

definition splitDockerDomain :: "string \<Rightarrow> string \<times> string" where
  "splitDockerDomain name =
     (let elems = Split name CHR ''/'';
          first = hd elems;
          (domain, remainder) =
            (if length elems = 1
                \<or> (\<not> list_ex (\<lambda>c. c = CHR ''.'' \<or> c = CHR '':'') first \<and> first \<noteq> ''localhost'')
             then (''docker.io'', name)
             else (first, drop (length first + 1) name));
          domain = (if domain = ''index.docker.io'' then ''docker.io'' else domain)
      in if domain = ''docker.io'' \<and> \<not> list_ex (\<lambda>c. c = CHR ''/'') remainder
         then (domain, ''library/'' @ remainder)
         else (domain, remainder))"

definition ParseNormalizedNamed :: "string \<Rightarrow> error + Named" where
  "ParseNormalizedNamed s =
     (if length s = 64 \<and> list_all (\<lambda>c. is_digit c \<or> (97 \<le> (of_char c :: nat) \<and> (of_char c :: nat) \<le> 102)) s
      then Inl (Error ''invalid repository name, cannot specify 64-byte hexadecimal strings'')
      else
        let (domain, remainder) = splitDockerDomain s;
            remoteName = takeWhile (\<lambda>c. c \<noteq> CHR '':'') remainder
        in if list_ex is_upper remoteName
           then Inl (Error ''invalid reference format: repository name must be lowercase'')
           else reference_Parse (domain @ ''/'' @ remainder))"

text \<open>\<open>ParseDockerRef\<close>: a reference with both a tag and a digest keeps the digest only;
  a bare name gets the tag \<open>latest\<close>.\<close>

definition docker_ParseDockerRef :: "string \<Rightarrow> error + Named" where
  "docker_ParseDockerRef ref =
     (case ParseNormalizedNamed ref of
        Inl err \<Rightarrow> Inl err
      | Inr named \<Rightarrow>
          if ref_tag named \<noteq> None \<and> ref_digest named \<noteq> None
          then Inr (named\<lparr>ref_tag := None\<rparr>)
          else Inr (TagNameOnly named))"

text \<open>Tags of 120 characters, for a reference whose suffixed tag is longer than a tag may be.\<close>

definition long_tag :: string where
  "long_tag = replicate 120 CHR ''a''"


section \<open>Package workflow: the commit pipeline\<close>

subsection \<open>Descriptors, images and options\<close>

record Descriptor =
  MediaType :: string
  Digest :: string
  Size :: int
  Annotations :: "string \<rightharpoonup> string"

record Blob =
  Name :: string
  BootstrapName :: string
  Desc :: Descriptor

text \<open>Of the OCI manifest and image configuration, the fields that the pipeline reads or
  writes: the configuration descriptor and the layers, and \<open>RootFS.DiffIDs\<close>.\<close>

record Manifest =
  manifest_Config :: Descriptor
  Layers :: "Descriptor list"

record ImageConfig =
  DiffIDs :: "string list"

record NydusImage =
  image_Manifest :: Manifest
  image_Config :: ImageConfig
  image_Desc :: Descriptor

record InspectResult =
  LowerDirs :: string
  UpperDir :: string
  inspect_Image :: string
  Mounts :: "Mount list"
  Pid :: int

record CommitOption =
  ContainerIDWithType :: string
  TargetRef :: string
  WithPaths :: "string list"
  WithoutPaths :: "string list"
  PauseContainer :: bool
  MaximumTimes :: int

definition layerAnnotationNydusCommitBlobs :: string where
  "layerAnnotationNydusCommitBlobs = ''containerd.io/snapshot/nydus-commit-blobs''"

definition layerAnnotationNydusBlobIDs :: string where
  "layerAnnotationNydusBlobIDs = ''containerd.io/snapshot/nydus-blob-ids''"

text \<open>Modelled from the spec: the annotation keys and media types that the workflow takes
  from packages outside the sources at hand (\<open>pkg/nydus/utils\<close>, the converter of the
  snapshotter and the image specification). The keys are those of the spec's list of manifest
  annotations; the two media types are the ones it calls the accelerated-blob media type and
  the standard gzipped image-layer type.\<close>

definition MediaTypeNydusBlob :: string where
  "MediaTypeNydusBlob = ''application/vnd.oci.image.layer.nydus.blob.v1''"

definition MediaTypeImageLayerGzip :: string where
  "MediaTypeImageLayerGzip = ''application/vnd.oci.image.layer.v1.tar+gzip''"

definition LayerAnnotationUncompressed :: string where
  "LayerAnnotationUncompressed = ''containerd.io/uncompressed''"

definition LayerAnnotationNydusBlob :: string where
  "LayerAnnotationNydusBlob = ''containerd.io/snapshot/nydus-blob''"

definition LayerAnnotationFSVersion :: string where
  "LayerAnnotationFSVersion = ''containerd.io/snapshot/nydus-fs-version''"

definition LayerAnnotationNydusBootstrap :: string where
  "LayerAnnotationNydusBootstrap = ''containerd.io/snapshot/nydus-bootstrap''"

subsection \<open>The world of a commit and its collaborators\<close>

text \<open>
  The calls that leave the process are recorded in a trace, in the order in which they are
  made. \<open>EvCreate\<close> is the creation of a blob file and \<open>EvPack\<close> the start of a packer on it.
\<close>

datatype event =
    EvInspect | EvPullBootstrap | EvPause | EvUnPause
  | EvCreate string | EvPack string | EvBackend | EvPushBlob string
  | EvMerge | EvPushConfig | EvPushBootstrap | EvPushManifest

text \<open>The value of \<open>wf.be\<close>. \<open>OSSBackend_nil\<close> is the nil pointer that a failed
  \<open>NewOSSBackend\<close> leaves in the interface.\<close>

datatype Backend = OSSBackend | OSSBackend_nil | Registry

fun External :: "Backend \<Rightarrow> bool" where
  "External OSSBackend = True"
| "External OSSBackend_nil = True"
| "External Registry = False"

text \<open>
  The state that a commit changes: the files of the work directory by name, the trace, the
  lazily built backend, the paths collected by \<open>MountList.Add\<close>, and what has reached the
  registry.
\<close>

record world =
  files :: "string \<rightharpoonup> byte list"
  trace :: "event list"
  be :: "Backend option"
  mount_paths :: "string list"
  pushed_config :: "ImageConfig option"
  pushed_layers :: "Descriptor list"
  pushed_manifest :: "Manifest option"

definition emit :: "event \<Rightarrow> world \<Rightarrow> world" where
  "emit ev w = w\<lparr>trace := trace w @ [ev]\<rparr>"

definition now :: "world \<Rightarrow> nat" where
  "now w = length (trace w)"

text \<open>
  One run of a packer on a blob file, as the builder and the producer of its input decide it:
  the \<open>Write\<close> calls that reach the destination writer, each with the number of bytes that
  the blob file accepts, the result of feeding the input (\<open>diff.Diff\<close> or the tar read in
  the container's mount namespace), the result of closing, and the nested mounts that the
  diff reports.
\<close>

record pack_run =
  pack_err :: "error option"
  writes :: "(byte list \<times> nat) list"
  feed_err :: "error option"
  close_err :: "error option"
  nested :: "string list"

text \<open>
  The collaborators. A result that may change from one call to the next is a function of
  the position in the trace at which the call is made. \<open>local_io\<close> is the failure of an
  operation on a file that exists, named by the message under which the source wraps it.
\<close>

record env =
  sha256 :: "byte list \<Rightarrow> string"
  gzip :: "byte list \<Rightarrow> byte list"
  ParseDockerRef :: "string \<Rightarrow> error + Named"
  oss_Endpoint :: string
  oss_BucketName :: string
  oss_New :: "nat \<Rightarrow> error option"
  client_Bucket :: "nat \<Rightarrow> error option"
  remote_New :: "nat \<Rightarrow> error option"
  backend_Push :: "nat \<Rightarrow> error option"
  os_Create :: "nat \<Rightarrow> error option"
  local_io :: "string \<Rightarrow> error option"
  packer :: "nat \<Rightarrow> pack_run"
  engine_Pause :: "nat \<Rightarrow> error option"
  engine_UnPause :: "nat \<Rightarrow> error option"
  engine_Inspect :: "error + InspectResult"
  parser_New :: "error option"
  parser_Parse :: "error + NydusImage option"
  FindNydusBootstrapDesc :: "Manifest \<Rightarrow> Descriptor option"
  PullNydusBootstrap :: "error + byte list"
  UnpackFile :: "byte list \<Rightarrow> error + byte list"
  converter_Merge :: "(string \<times> byte list) list \<Rightarrow> byte list option \<Rightarrow> error + string list \<times> byte list"
  json_config :: "ImageConfig \<Rightarrow> error + byte list"
  json_manifest :: "Manifest \<Rightarrow> error + byte list"
  json_blobIDs :: "string list \<Rightarrow> error + string"
  digest_Hex :: "string \<Rightarrow> string"
  remoter_Push :: "nat \<Rightarrow> error option"

text \<open>A panic ends the process. It is rendered as an error, so that a commit which
  panics is a commit that fails.\<close>

definition nil_dereference :: error where
  "nil_dereference = Error ''panic: runtime error: invalid memory address or nil pointer dereference''"

definition no_such_file :: "string \<Rightarrow> error" where
  "no_such_file name = Error (''open '' @ name @ '': no such file or directory'')"

subsection \<open>The backend\<close>

definition NewOSSBackend :: "env \<Rightarrow> nat \<Rightarrow> error option" where
  "NewOSSBackend env i =
     (if oss_Endpoint env = [] \<or> oss_BucketName env = [] then
        Some (Error ''oss `endpoint` and `bucket_name` fields is required'')
      else
        (case oss_New env i of
           Some err \<Rightarrow> Some (Wrap err ''Create client'')
         | None \<Rightarrow>
             (case client_Bucket env i of
                Some err \<Rightarrow> Some (Wrap err ''Create bucket'')
              | None \<Rightarrow> None)))"

definition backend :: "env \<Rightarrow> string \<Rightarrow> world \<Rightarrow> (error + Backend) \<times> world" where
  "backend env ref w =
     (case be w of
        Some b \<Rightarrow> (Inr b, w)
      | None \<Rightarrow>
          if oss_Endpoint env \<noteq> [] then
            (case NewOSSBackend env (now w) of
               Some err \<Rightarrow> (Inl (Wrap err ''new oss backend''), (emit EvBackend w)\<lparr>be := Some OSSBackend_nil\<rparr>)
             | None \<Rightarrow> (Inr OSSBackend, (emit EvBackend w)\<lparr>be := Some OSSBackend\<rparr>))
          else
            (case remote_New env (now w) of
               Some err \<Rightarrow> (Inl (Wrap err ''create remote''), emit EvBackend w)
             | None \<Rightarrow> (Inr Registry, (emit EvBackend w)\<lparr>be := Some Registry\<rparr>)))"

text \<open>\<open>Push\<close> of the \<open>Backend\<close> interface: the result of the upload is the collaborator's.\<close>

definition Backend_Push :: "env \<Rightarrow> Backend \<Rightarrow> nat \<Rightarrow> error option" where
  "Backend_Push env b i = (case b of OSSBackend_nil \<Rightarrow> Some nil_dereference | _ \<Rightarrow> backend_Push env i)"

subsection \<open>Packing a blob\<close>

text \<open>
  \<open>io.MultiWriter(blob, digester.Hash(), &counter)\<close>, as the three things it writes to: the
  bytes of the blob file, the bytes hashed so far, and the count. The file comes first; when
  it takes fewer bytes than offered, the write fails there and neither the hash nor the
  counter see the chunk. The hash and the counter never refuse a write, so the order of these
  two, which differs between the upper and the mount packer, makes no difference.
\<close>

definition multi_write :: "byte list \<times> byte list \<times> int \<Rightarrow> byte list \<times> nat \<Rightarrow> byte list \<times> byte list \<times> int" where
  "multi_write st wr =
     (case st of (blob, hashed, counter) \<Rightarrow>
        (case wr of (p, n) \<Rightarrow>
           if n < length p then (blob @ take n p, hashed, counter)
           else (blob @ p, hashed @ p, counter + int (length p))))"

definition commitUpperByDiff :: "env \<Rightarrow> string \<Rightarrow> world \<Rightarrow> (error + string) \<times> world" where
  "commitUpperByDiff env blobName w =
     (let run = packer env (now w) in
      case os_Create env (now w) of
        Some err \<Rightarrow> (Inl (Wrap err ''create upper blob file''), emit (EvCreate blobName) w)
      | None \<Rightarrow>
          let w1 = (emit (EvCreate blobName) w)\<lparr>files := (files w)(blobName \<mapsto> [])\<rparr> in
          (case pack_err run of
             Some err \<Rightarrow> (Inl (Wrap err ''initialize pack to blob''), w1)
           | None \<Rightarrow>
               (case foldl multi_write ([], [], 0) (writes run) of
                  (blob, hashed, counter) \<Rightarrow>
                    let w2 = (emit (EvPack blobName) w1)
                               \<lparr>files := (files w1)(blobName \<mapsto> blob),
                                mount_paths := mount_paths w1 @ nested run\<rparr>
                    in (case feed_err run of
                          Some err \<Rightarrow> (Inl (Wrap err ''make diff''), w2)
                        | None \<Rightarrow>
                            (case close_err run of
                               Some err \<Rightarrow> (Inl (Wrap err ''pack to blob''), w2)
                             | None \<Rightarrow> (Inr (sha256 env hashed), w2))))))"

definition commitMountByNSEnter ::
  "env \<Rightarrow> int \<Rightarrow> string \<Rightarrow> string \<Rightarrow> world \<Rightarrow> (error + string) \<times> world" where
  "commitMountByNSEnter env containerPid sourceDir name w =
     (let run = packer env (now w) in
      case os_Create env (now w) of
        Some err \<Rightarrow> (Inl (Wrap err ''create mount blob file''), emit (EvCreate name) w)
      | None \<Rightarrow>
          let w1 = (emit (EvCreate name) w)\<lparr>files := (files w)(name \<mapsto> [])\<rparr> in
          (case pack_err run of
             Some err \<Rightarrow> (Inl (Wrap err ''initialize pack to blob''), w1)
           | None \<Rightarrow>
               (case foldl multi_write ([], [], 0) (writes run) of
                  (blob, hashed, counter) \<Rightarrow>
                    let w2 = (emit (EvPack name) w1)\<lparr>files := (files w1)(name \<mapsto> blob)\<rparr>
                    in (case feed_err run of
                          Some err \<Rightarrow>
                            (Inl (Wrap err (''copy '' @ sourceDir @ '' from pid '' @ itoa containerPid)), w2)
                        | None \<Rightarrow>
                            (case close_err run of
                               Some err \<Rightarrow> (Inl (Wrap err ''pack to blob''), w2)
                             | None \<Rightarrow> (Inr (sha256 env hashed), w2))))))"

text \<open>\<open>pushBlob\<close> returns the descriptor together with the error of the push.\<close>

definition pushBlob ::
  "env \<Rightarrow> string \<Rightarrow> string \<Rightarrow> string \<Rightarrow> world \<Rightarrow> (Descriptor option \<times> error option) \<times> world" where
  "pushBlob env blobName blobDigest targetRef w =
     (case files w blobName of
        None \<Rightarrow> ((None, Some (Wrap (no_such_file blobName) ''open reader for upper blob'')), w)
      | Some content \<Rightarrow>
          let blobDesc = \<lparr>MediaType = MediaTypeNydusBlob, Digest = blobDigest,
                          Size = int (length content),
                          Annotations = [LayerAnnotationUncompressed \<mapsto> blobDigest,
                                         LayerAnnotationNydusBlob \<mapsto> ''true'']\<rparr>
          in (case backend env targetRef w of
                (Inl err, w1) \<Rightarrow> ((None, Some err), w1)
              | (Inr b, w1) \<Rightarrow>
                  ((Some blobDesc, Backend_Push env b (now w1)), emit (EvPushBlob blobName) w1)))"

text \<open>The packer is expected to report a write that its destination refused: when the blob
  file took fewer bytes than a chunk has, feeding or closing the packer returns an error.\<close>

definition reports_short_writes :: "pack_run \<Rightarrow> bool" where
  "reports_short_writes run =
     (list_ex (\<lambda>(p, n). n < length p) (writes run) \<longrightarrow> feed_err run \<noteq> None \<or> close_err run \<noteq> None)"


subsection \<open>The tasks of the two waves\<close>

text \<open>
  The closures handed to \<open>withRetry\<close> assign the digest to a variable of the task; the state
  of the retried handler is the world together with that variable.
\<close>

definition upper_handle :: "env \<Rightarrow> world \<times> string option \<Rightarrow> error option \<times> world \<times> string option" where
  "upper_handle env s =
     (case commitUpperByDiff env ''blob-upper'' (fst s) of
        (Inl err, w') \<Rightarrow> (Some err, w', None)
      | (Inr dg, w') \<Rightarrow> (None, w', Some dg))"

definition mount_handle ::
  "env \<Rightarrow> int \<Rightarrow> string \<Rightarrow> string \<Rightarrow> world \<times> string option \<Rightarrow> error option \<times> world \<times> string option" where
  "mount_handle env pid path name s =
     (case commitMountByNSEnter env pid path name (fst s) of
        (Inl err, w') \<Rightarrow> (Some err, w', None)
      | (Inr dg, w') \<Rightarrow> (None, w', Some dg))"

text \<open>What a task does after its retried packing: dereference the digest, push the blob,
  and build the \<open>Blob\<close>. The two messages are those of the task.\<close>

definition push_packed ::
  "env \<Rightarrow> CommitOption \<Rightarrow> string \<Rightarrow> string \<Rightarrow> string
     \<Rightarrow> error option \<times> world \<times> string option \<Rightarrow> (error + Blob) \<times> world" where
  "push_packed env opt name commit_msg push_msg r =
     (case r of
        (Some err, w1, d) \<Rightarrow> (Inl (Wrap err commit_msg), w1)
      | (None, w1, None) \<Rightarrow> (Inl nil_dereference, w1)
      | (None, w1, Some dg) \<Rightarrow>
          (case pushBlob env name dg (TargetRef opt) w1 of
             ((d, Some err), w2) \<Rightarrow> (Inl (Wrap err push_msg), w2)
           | ((None, None), w2) \<Rightarrow> (Inl nil_dereference, w2)
           | ((Some desc, None), w2) \<Rightarrow> (Inr \<lparr>Name = name, BootstrapName = [], Desc = desc\<rparr>, w2)))"

definition upper_task :: "env \<Rightarrow> CommitOption \<Rightarrow> world \<Rightarrow> (error + Blob) \<times> world" where
  "upper_task env opt w =
     push_packed env opt ''blob-upper'' ''commit upper'' ''push upper blob''
       (withRetry (upper_handle env) 3 (w, None))"

definition mount_task ::
  "env \<Rightarrow> CommitOption \<Rightarrow> InspectResult \<Rightarrow> nat \<Rightarrow> world \<Rightarrow> (error + Blob) \<times> world" where
  "mount_task env opt inspect idx w =
     (let withPath = WithPaths opt ! idx;
          name = ''blob-mount-'' @ itoa (int idx)
      in push_packed env opt name ''commit mount'' ''push mount blob''
           (withRetry (mount_handle env (Pid inspect) withPath name) 3 (w, None)))"

definition appended_task ::
  "env \<Rightarrow> CommitOption \<Rightarrow> InspectResult \<Rightarrow> string list \<Rightarrow> nat \<Rightarrow> world \<Rightarrow> (error + Blob) \<times> world" where
  "appended_task env opt inspect paths idx w =
     (let mountPath = paths ! idx;
          name = ''blob-appended-mount-'' @ itoa (int idx)
      in push_packed env opt name ''commit appended mount'' ''push appended mount blob''
           (withRetry (mount_handle env (Pid inspect) mountPath name) 3 (w, None)))"

text \<open>
  The variables of \<open>Commit\<close> that the closure \<open>commit\<close> writes, with the world. The tasks of
  an error group run here one after the other, in the order in which they are started;
  a failed task does not stop the ones after it, and \<open>Wait\<close> returns the first error.
\<close>

record commit_vars =
  cv_world :: world
  upperBlob :: "Blob option"
  mountBlobs :: "Blob list"

definition zero_Descriptor :: Descriptor where
  "zero_Descriptor = \<lparr>MediaType = [], Digest = [], Size = 0, Annotations = Map.empty\<rparr>"

definition zero_Blob :: Blob where
  "zero_Blob = \<lparr>Name = [], BootstrapName = [], Desc = zero_Descriptor\<rparr>"

definition first_error :: "error option \<Rightarrow> error \<Rightarrow> error option" where
  "first_error seen err = (case seen of None \<Rightarrow> Some err | Some e \<Rightarrow> Some e)"

fun wave1_mounts ::
  "env \<Rightarrow> CommitOption \<Rightarrow> InspectResult \<Rightarrow> nat list \<Rightarrow> error option \<times> commit_vars
     \<Rightarrow> error option \<times> commit_vars" where
  "wave1_mounts env opt inspect [] st = st"
| "wave1_mounts env opt inspect (idx # rest) st =
     (case mount_task env opt inspect idx (cv_world (snd st)) of
        (Inl err, w') \<Rightarrow>
          wave1_mounts env opt inspect rest (first_error (fst st) err, (snd st)\<lparr>cv_world := w'\<rparr>)
      | (Inr b, w') \<Rightarrow>
          wave1_mounts env opt inspect rest
            (fst st, (snd st)\<lparr>cv_world := w', mountBlobs := (mountBlobs (snd st))[idx := b]\<rparr>))"

fun wave2_mounts ::
  "env \<Rightarrow> CommitOption \<Rightarrow> InspectResult \<Rightarrow> string list \<Rightarrow> nat list \<Rightarrow> error option \<times> commit_vars
     \<Rightarrow> error option \<times> commit_vars" where
  "wave2_mounts env opt inspect paths [] st = st"
| "wave2_mounts env opt inspect paths (idx # rest) st =
     (case appended_task env opt inspect paths idx (cv_world (snd st)) of
        (Inl err, w') \<Rightarrow>
          wave2_mounts env opt inspect paths rest (first_error (fst st) err, (snd st)\<lparr>cv_world := w'\<rparr>)
      | (Inr b, w') \<Rightarrow>
          wave2_mounts env opt inspect paths rest
            (fst st, (snd st)\<lparr>cv_world := w', mountBlobs := mountBlobs (snd st) @ [b]\<rparr>))"

text \<open>The closure \<open>commit\<close> of \<open>Commit\<close>.\<close>

definition commit :: "env \<Rightarrow> CommitOption \<Rightarrow> InspectResult \<Rightarrow> commit_vars \<Rightarrow> error option \<times> commit_vars" where
  "commit env opt inspect v =
     (let st0 = (case upper_task env opt (cv_world v) of
                   (Inl err, w') \<Rightarrow> (Some err, v\<lparr>cv_world := w'\<rparr>)
                 | (Inr b, w') \<Rightarrow> (None, v\<lparr>cv_world := w', upperBlob := Some b\<rparr>));
          st1 = wave1_mounts env opt inspect [0 ..< length (WithPaths opt)] st0
      in case fst st1 of
           Some err \<Rightarrow> (Some err, snd st1)
         | None \<Rightarrow>
             let paths = mount_paths (cv_world (snd st1))
             in wave2_mounts env opt inspect paths [0 ..< length paths] (None, snd st1))"

subsection \<open>Pausing the container\<close>

definition cm_Pause :: "env \<Rightarrow> world \<Rightarrow> error option \<times> world" where
  "cm_Pause env w = (engine_Pause env (now w), emit EvPause w)"

definition cm_UnPause :: "env \<Rightarrow> world \<Rightarrow> error option \<times> world" where
  "cm_UnPause env w = (engine_UnPause env (now w), emit EvUnPause w)"

text \<open>\<open>pause\<close>: the calls of the container manager and the handler all act on one state.\<close>

definition pause ::
  "('s \<Rightarrow> error option \<times> 's) \<Rightarrow> ('s \<Rightarrow> error option \<times> 's) \<Rightarrow> ('s \<Rightarrow> error option \<times> 's)
     \<Rightarrow> 's \<Rightarrow> error option \<times> 's" where
  "pause Pause UnPause handle s =
     (case Pause s of
        (Some err, s1) \<Rightarrow> (Some (Wrap err ''pause container''), s1)
      | (None, s1) \<Rightarrow>
          (case handle s1 of
             (Some err, s2) \<Rightarrow> (Some err, snd (UnPause s2))
           | (None, s2) \<Rightarrow> UnPause s2))"

definition on_world :: "(world \<Rightarrow> error option \<times> world) \<Rightarrow> commit_vars \<Rightarrow> error option \<times> commit_vars" where
  "on_world f v = (case f (cv_world v) of (r, w') \<Rightarrow> (r, v\<lparr>cv_world := w'\<rparr>))"

definition unpause_calls :: "commit_vars \<Rightarrow> nat" where
  "unpause_calls v = count_list (trace (cv_world v)) EvUnPause"

subsection \<open>The base bootstrap\<close>

text \<open>The count that \<open>pullBootstrap\<close> reads from the annotations of the bootstrap layer: a
  key that is absent from a Go map reads as the empty string.\<close>

definition committed_layers :: "Descriptor \<Rightarrow> int" where
  "committed_layers bootstrapDesc =
     (let commitBlobs = (case Annotations bootstrapDesc layerAnnotationNydusCommitBlobs of
                           None \<Rightarrow> [] | Some v \<Rightarrow> v)
      in if commitBlobs \<noteq> [] then int (length (Split commitBlobs CHR '','')) else 0)"

definition pullBootstrap ::
  "env \<Rightarrow> string \<Rightarrow> string \<Rightarrow> world \<Rightarrow> (error + NydusImage \<times> int) \<times> world" where
  "pullBootstrap env ref bootstrapName w =
     (let w1 = emit EvPullBootstrap w in
      case remote_New env (now w) of
        Some err \<Rightarrow> (Inl (Wrap err ''create remote''), w1)
      | None \<Rightarrow>
          (case parser_New env of
             Some err \<Rightarrow> (Inl (Wrap err ''create parser''), w1)
           | None \<Rightarrow>
               (case parser_Parse env of
                  Inl err \<Rightarrow> (Inl (Wrap err ''parse nydus image''), w1)
                | Inr None \<Rightarrow> (Inl (Error (''not a nydus image: '' @ ref)), w1)
                | Inr (Some img) \<Rightarrow>
                    (case FindNydusBootstrapDesc env (image_Manifest img) of
                       None \<Rightarrow> (Inl (Error ''not found nydus bootstrap layer''), w1)
                     | Some bootstrapDesc \<Rightarrow>
                         let committedLayers = committed_layers bootstrapDesc in
                         (case PullNydusBootstrap env of
                            Inl err \<Rightarrow> (Inl (Wrap err ''pull bootstrap layer''), w1)
                          | Inr reader \<Rightarrow>
                              (case UnpackFile env reader of
                                 Inl err \<Rightarrow> (Inl (Wrap err ''unpack bootstrap layer''), w1)
                               | Inr content \<Rightarrow>
                                   (Inr (img, committedLayers),
                                    w1\<lparr>files := (files w1)(bootstrapName \<mapsto> content)\<rparr>)))))))"

subsection \<open>Merging the bootstrap and pushing the manifest\<close>

fun open_layers :: "world \<Rightarrow> Blob list \<Rightarrow> error + (string \<times> byte list) list" where
  "open_layers w [] = Inr []"
| "open_layers w (b # bs) =
     (case files w (Name b) of
        None \<Rightarrow> Inl (no_such_file (Name b))
      | Some content \<Rightarrow>
          (case open_layers w bs of
             Inl err \<Rightarrow> Inl err
           | Inr ls \<Rightarrow> Inr ((Digest (Desc b), content) # ls)))"

definition mergeBootstrap ::
  "env \<Rightarrow> Blob \<Rightarrow> Blob list \<Rightarrow> string \<Rightarrow> string \<Rightarrow> world \<Rightarrow> (error + string list \<times> string) \<times> world" where
  "mergeBootstrap env upper mounts baseBootstrapName mergedBootstrapName w =
     (case files w (Name upper) of
        None \<Rightarrow> (Inl (Wrap (no_such_file (Name upper)) ''open reader for upper blob''), w)
      | Some upperContent \<Rightarrow>
          (case os_Create env (now w) of
             Some err \<Rightarrow> (Inl (Wrap err ''create upper blob file''), w)
           | None \<Rightarrow>
               let w1 = w\<lparr>files := (files w)(mergedBootstrapName \<mapsto> [])\<rparr> in
               (case open_layers w1 mounts of
                  Inl err \<Rightarrow> (Inl (Wrap err ''open reader for mount blob''), w1)
                | Inr mountLayers \<Rightarrow>
                    (case converter_Merge env ((Digest (Desc upper), upperContent) # mountLayers)
                            (files w1 baseBootstrapName) of
                       Inl err \<Rightarrow> (Inl (Wrap err ''merge bootstraps''), emit EvMerge w1)
                     | Inr (blobDigests, tar) \<Rightarrow>
                         (Inr (blobDigests, sha256 env tar),
                          (emit EvMerge w1)\<lparr>files := (files w1)(mergedBootstrapName \<mapsto> tar)\<rparr>)))))"

definition makeDesc ::
  "env \<Rightarrow> ('a \<Rightarrow> error + byte list) \<Rightarrow> 'a \<Rightarrow> Descriptor \<Rightarrow> error + byte list \<times> Descriptor" where
  "makeDesc env marshal x oldDesc =
     (case marshal x of
        Inl err \<Rightarrow> Inl (Wrap err ''json marshal'')
      | Inr data \<Rightarrow> Inr (data, oldDesc\<lparr>Size := int (length data), Digest := sha256 env data\<rparr>))"

text \<open>The pieces of \<open>pushManifest\<close> that build lists: the blob layers of the base image,
  the diff-ids of the new configuration, the digests of the commit annotation and the layers
  of the new manifest.\<close>

definition lowerBlobLayers :: "NydusImage \<Rightarrow> Descriptor list" where
  "lowerBlobLayers nydusImage =
     filter (\<lambda>layer. MediaType layer = MediaTypeNydusBlob) (Layers (image_Manifest nydusImage))"

definition new_DiffIDs :: "bool \<Rightarrow> NydusImage \<Rightarrow> string \<Rightarrow> Blob \<Rightarrow> Blob list \<Rightarrow> string list" where
  "new_DiffIDs external nydusImage bootstrapDiffID upper mounts =
     (if external then [bootstrapDiffID]
      else map Digest (lowerBlobLayers nydusImage) @ map (\<lambda>b. Digest (Desc b)) mounts
           @ [Digest (Desc upper)] @ [bootstrapDiffID])"

definition commitBlobs_of :: "Blob \<Rightarrow> Blob list \<Rightarrow> string list" where
  "commitBlobs_of upper mounts = map (\<lambda>b. Digest (Desc b)) mounts @ [Digest (Desc upper)]"

definition new_Layers :: "bool \<Rightarrow> NydusImage \<Rightarrow> Descriptor \<Rightarrow> Blob \<Rightarrow> Blob list \<Rightarrow> Descriptor list" where
  "new_Layers external nydusImage bootstrapDesc upper mounts =
     (if external then [bootstrapDesc]
      else lowerBlobLayers nydusImage @ map Desc mounts @ [Desc upper] @ [bootstrapDesc])"

text \<open>What a successful \<open>pushManifest\<close> has sent to the registry.\<close>

record pushed =
  out_config :: ImageConfig
  out_bootstrap :: Descriptor
  out_manifest :: Manifest

text \<open>\<open>pushManifest\<close>. \<open>Commit\<close> passes a pointer to the upper blob that it has dereferenced
  just before, so the blob itself is the argument here.\<close>

definition pushManifest ::
  "env \<Rightarrow> NydusImage \<Rightarrow> string \<Rightarrow> string \<Rightarrow> string \<Rightarrow> string list \<Rightarrow> Blob \<Rightarrow> Blob list
     \<Rightarrow> world \<Rightarrow> (error + pushed) \<times> world" where
  "pushManifest env nydusImage bootstrapDiffID targetRef bootstrapName blobDigests upper mounts w =
     (case be w of
        None \<Rightarrow> (Inl nil_dereference, w)
      | Some b \<Rightarrow>
     (let config = (image_Config nydusImage)
                     \<lparr>DiffIDs := new_DiffIDs (External b) nydusImage bootstrapDiffID upper mounts\<rparr>
      in case makeDesc env (json_config env) config (manifest_Config (image_Manifest nydusImage)) of
        Inl err \<Rightarrow> (Inl (Wrap err ''make config desc''), w)
      | Inr (configBytes, configDesc) \<Rightarrow>
     (case remote_New env (now w) of
        Some err \<Rightarrow> (Inl (Wrap err ''create remote''), w)
      | None \<Rightarrow>
     (let w1 = emit EvPushConfig w;
          push1 = remoter_Push env (now w);
          w2 = (if push1 \<noteq> None \<and> RetryWithHTTP push1 then emit EvPushConfig w1 else w1);
          push2 = (if push1 \<noteq> None \<and> RetryWithHTTP push1 then remoter_Push env (now w1) else push1)
      in case push2 of
        Some err \<Rightarrow> (Inl (Wrap err ''push image config''), w2)
      | None \<Rightarrow>
     (let w3 = w2\<lparr>pushed_config := Some config\<rparr> in
      case files w3 bootstrapName of
        None \<Rightarrow> (Inl (Wrap (no_such_file bootstrapName) ''open bootstrap tar file''), w3)
      | Some bootstrapTar \<Rightarrow>
     (case os_Create env (now w3) of
        Some err \<Rightarrow> (Inl (Wrap err ''create bootstrap tar.gz file''), w3)
      | None \<Rightarrow>
     (let gz = gzip env bootstrapTar;
          w4 = w3\<lparr>files := (files w3)(bootstrapName @ ''.gz'' \<mapsto> gz)\<rparr>
      in case local_io env ''compress bootstrap tar to tar.gz'' of
        Some err \<Rightarrow> (Inl (Wrap err ''compress bootstrap tar to tar.gz''), w4)
      | None \<Rightarrow>
     (case local_io env ''close gzip writer'' of
        Some err \<Rightarrow> (Inl (Wrap err ''close gzip writer''), w4)
      | None \<Rightarrow>
     (case local_io env ''open reader for upper blob'' of
        Some err \<Rightarrow> (Inl (Wrap err ''open reader for upper blob''), w4)
      | None \<Rightarrow>
     (case json_blobIDs env (map (digest_Hex env) blobDigests) of
        Inl err \<Rightarrow> (Inl (Wrap err ''marshal blob ids''), w4)
      | Inr blobIDsBytes \<Rightarrow>
     (let commitBlobs = commitBlobs_of upper mounts;
          annotations = [LayerAnnotationFSVersion \<mapsto> ''5'',
                         LayerAnnotationNydusBootstrap \<mapsto> ''true'',
                         layerAnnotationNydusCommitBlobs \<mapsto> Join commitBlobs '',''];
          bootstrapDesc = \<lparr>MediaType = MediaTypeImageLayerGzip, Digest = sha256 env gz,
                           Size = int (length gz),
                           Annotations = (if External b
                                          then annotations(layerAnnotationNydusBlobIDs \<mapsto> blobIDsBytes)
                                          else annotations)\<rparr>
      in case local_io env (''open bootstrap '' @ bootstrapName @ ''.gz'') of
        Some err \<Rightarrow> (Inl (Wrap err (''open bootstrap '' @ bootstrapName @ ''.gz'')), w4)
      | None \<Rightarrow>
     (case remoter_Push env (now w4) of
        Some err \<Rightarrow> (Inl (Wrap err ''push bootstrap layer''), emit EvPushBootstrap w4)
      | None \<Rightarrow>
     (let w6 = (emit EvPushBootstrap w4)\<lparr>pushed_layers := pushed_layers w4 @ [bootstrapDesc]\<rparr>;
          manifest = (image_Manifest nydusImage)
                       \<lparr>manifest_Config := configDesc,
                        Layers := new_Layers (External b) nydusImage bootstrapDesc upper mounts\<rparr>
      in case makeDesc env (json_manifest env) manifest (image_Desc nydusImage) of
        Inl err \<Rightarrow> (Inl (Wrap err ''make config desc''), w6)
      | Inr (manifestBytes, manifestDesc) \<Rightarrow>
     (case remoter_Push env (now w6) of
        Some err \<Rightarrow> (Inl (Wrap err ''push image manifest''), emit EvPushManifest w6)
      | None \<Rightarrow>
          (Inr \<lparr>out_config = config, out_bootstrap = bootstrapDesc, out_manifest = manifest\<rparr>,
           (emit EvPushManifest w6)\<lparr>pushed_manifest := Some manifest\<rparr>)))))))))))))))"

subsection \<open>The commit\<close>

definition cm_Inspect :: "env \<Rightarrow> world \<Rightarrow> (error + InspectResult) \<times> world" where
  "cm_Inspect env w = (engine_Inspect env, emit EvInspect w)"

text \<open>\<open>Commit\<close> after the check of the maximum: the two waves, with the container paused
  if asked, the merge, and the manifest.\<close>

definition Commit_run ::
  "env \<Rightarrow> CommitOption \<Rightarrow> string \<Rightarrow> InspectResult \<Rightarrow> NydusImage \<Rightarrow> world \<Rightarrow> (error + pushed) \<times> world" where
  "Commit_run env opt targetRef inspect img w =
     (let v0 = \<lparr>cv_world = w\<lparr>mount_paths := []\<rparr>, upperBlob = None,
                mountBlobs = replicate (length (WithPaths opt)) zero_Blob\<rparr>;
          committed =
            (if PauseContainer opt then
               (case pause (on_world (cm_Pause env)) (on_world (cm_UnPause env)) (commit env opt inspect) v0 of
                  (Some err, v) \<Rightarrow> (Some (Wrap err ''pause container to commit''), v)
                | (None, v) \<Rightarrow> (None, v))
             else commit env opt inspect v0)
      in case committed of
           (Some err, v) \<Rightarrow> (Inl err, cv_world v)
         | (None, v) \<Rightarrow>
             (case upperBlob v of
                None \<Rightarrow> (Inl nil_dereference, cv_world v)
              | Some upper \<Rightarrow>
                  (case mergeBootstrap env upper (mountBlobs v) ''bootstrap-base'' ''bootstrap-merged.tar''
                          (cv_world v) of
                     (Inl err, w1) \<Rightarrow> (Inl (Wrap err ''merge bootstrap''), w1)
                   | (Inr (blobDigests, bootstrapDiffID), w1) \<Rightarrow>
                       (case pushManifest env img bootstrapDiffID targetRef ''bootstrap-merged.tar''
                               blobDigests upper (mountBlobs v) w1 of
                          (Inl err, w2) \<Rightarrow> (Inl (Wrap err ''push manifest''), w2)
                        | (Inr out, w2) \<Rightarrow> (Inr out, w2)))))"

definition maximum_reached :: "int \<Rightarrow> error" where
  "maximum_reached n = Error (''reached maximum committed times '' @ itoa n)"

definition Commit :: "env \<Rightarrow> CommitOption \<Rightarrow> world \<Rightarrow> (error + pushed) \<times> world" where
  "Commit env opt w =
     (case AppendNydusSuffix (ParseDockerRef env) (TargetRef opt) of
        Inl err \<Rightarrow> (Inl (Wrap err ''parse target image name''), w)
      | Inr targetRef \<Rightarrow>
          (case cm_Inspect env w of
             (Inl err, w1) \<Rightarrow> (Inl (Wrap err ''inspect container''), w1)
           | (Inr inspect, w1) \<Rightarrow>
               (case pullBootstrap env (inspect_Image inspect) ''bootstrap-base'' w1 of
                  (Inl err, w2) \<Rightarrow> (Inl (Wrap err ''pull base bootstrap''), w2)
                | (Inr (img, committedLayers), w2) \<Rightarrow>
                    if committedLayers \<ge> MaximumTimes opt
                    then (Inl (maximum_reached (MaximumTimes opt)), w2)
                    else Commit_run env opt targetRef inspect img w2)))"

text \<open>The steps of \<open>Commit\<close> that come before the check of the maximum, and the annotation
  that the check reads.\<close>

definition reaches_check :: "env \<Rightarrow> CommitOption \<Rightarrow> world \<Rightarrow> bool" where
  "reaches_check env opt w =
     (\<not> isl (AppendNydusSuffix (ParseDockerRef env) (TargetRef opt))
      \<and> \<not> isl (fst (cm_Inspect env w))
      \<and> \<not> isl (fst (pullBootstrap env (inspect_Image (projr (fst (cm_Inspect env w))))
                        ''bootstrap-base'' (snd (cm_Inspect env w)))))"

definition packers_started :: "world \<Rightarrow> nat" where
  "packers_started w = length (filter (\<lambda>ev. case ev of EvPack name \<Rightarrow> True | _ \<Rightarrow> False) (trace w))"


text \<open>The errors that a task of a wave returns: a wrapped error, or the rendering of a
  panic.\<close>

definition task_error :: "error \<Rightarrow> bool" where
  "task_error e = (e = nil_dereference \<or> (case e of Wrap c m \<Rightarrow> True | Error m \<Rightarrow> False))"

text \<open>The count of the commit annotation on the bootstrap layer of a finished commit.\<close>

definition commit_count :: "(error + pushed) \<times> world \<Rightarrow> int option" where
  "commit_count r =
     (case fst r of Inl e \<Rightarrow> None | Inr out \<Rightarrow> Some (committed_layers (out_bootstrap out)))"

section \<open>A concrete commit\<close>

text \<open>
  An environment in which the pipeline can be run: the reference parser above, a registry
  backend, an image whose bootstrap layer lists two committed blobs, a container with one
  bind mount, and collaborators that succeed. The digest function is a stand-in that prints
  the bytes after the algorithm prefix, and compression puts the two magic bytes of gzip in
  front. The packer writes the four bytes \<open>abcd\<close> in two chunks; only the run that starts at
  the very beginning of a trace loses a byte of its first chunk and reports it on closing.
\<close>

definition demo_digest :: "byte list \<Rightarrow> string" where
  "demo_digest bs = ''sha256:'' @ map (\<lambda>b. char_of (unat b)) bs"

definition demo_run :: pack_run where
  "demo_run = \<lparr>pack_err = None, writes = [([97, 98, 99], 3), ([100], 1)], feed_err = None,
               close_err = None, nested = []\<rparr>"

definition short_run :: pack_run where
  "short_run = \<lparr>pack_err = None, writes = [([97, 98, 99], 2)], feed_err = None,
                close_err = Some (Error ''pack nydus tar: short write''), nested = []\<rparr>"

definition failing_run :: pack_run where
  "failing_run = \<lparr>pack_err = None, writes = [], feed_err = None,
                  close_err = Some (Error ''nydus-image: exit status 1''), nested = []\<rparr>"

definition demo_base_bootstrap :: Descriptor where
  "demo_base_bootstrap =
     \<lparr>MediaType = MediaTypeImageLayerGzip, Digest = ''sha256:boot'', Size = 10,
      Annotations = [LayerAnnotationNydusBootstrap \<mapsto> ''true'',
                     layerAnnotationNydusCommitBlobs \<mapsto> ''sha256:c1,sha256:c2'']\<rparr>"

definition demo_base_blob :: Descriptor where
  "demo_base_blob =
     \<lparr>MediaType = MediaTypeNydusBlob, Digest = ''sha256:base'', Size = 20,
      Annotations = [LayerAnnotationNydusBlob \<mapsto> ''true'']\<rparr>"

definition demo_image :: NydusImage where
  "demo_image =
     \<lparr>image_Manifest =
        \<lparr>manifest_Config = \<lparr>MediaType = ''application/vnd.oci.image.config.v1+json'',
                             Digest = ''sha256:cfg'', Size = 5, Annotations = Map.empty\<rparr>,
         Layers = [demo_base_blob, demo_base_bootstrap]\<rparr>,
      image_Config = \<lparr>DiffIDs = [''sha256:base'', ''sha256:bootid'']\<rparr>,
      image_Desc = \<lparr>MediaType = ''application/vnd.oci.image.manifest.v1+json'',
                    Digest = ''sha256:mani'', Size = 7, Annotations = Map.empty\<rparr>\<rparr>"

definition demo_inspect :: InspectResult where
  "demo_inspect = \<lparr>LowerDirs = ''/lower'', UpperDir = ''/upper'',
                   inspect_Image = ''localhost:5000/nginx:lower_nydus_v2'',
                   Mounts = [\<lparr>Destination = ''/data'', Source = ''/data''\<rparr>], Pid = 4242\<rparr>"

definition demo_env :: env where
  "demo_env =
     \<lparr>sha256 = demo_digest, gzip = (\<lambda>bs. 31 # 139 # bs),
      ParseDockerRef = docker_ParseDockerRef,
      oss_Endpoint = [], oss_BucketName = [],
      oss_New = (\<lambda>i. None), client_Bucket = (\<lambda>i. None), remote_New = (\<lambda>i. None),
      backend_Push = (\<lambda>i. None), os_Create = (\<lambda>i. None), local_io = (\<lambda>m. None),
      packer = (\<lambda>i. if i = 0 then short_run else demo_run),
      engine_Pause = (\<lambda>i. None), engine_UnPause = (\<lambda>i. None),
      engine_Inspect = Inr demo_inspect,
      parser_New = None, parser_Parse = Inr (Some demo_image),
      FindNydusBootstrapDesc = (\<lambda>m. case Layers m of [] \<Rightarrow> None | l # ls \<Rightarrow> Some (last (l # ls))),
      PullNydusBootstrap = Inr [9, 9], UnpackFile = Inr,
      converter_Merge = (\<lambda>layers base. Inr (map fst layers, concat (map snd layers))),
      json_config = (\<lambda>c. Inr [123, 125]), json_manifest = (\<lambda>m. Inr [123, 125]),
      json_blobIDs = (\<lambda>ids. Inr (Join ids '','')),
      digest_Hex = drop 7,
      remoter_Push = (\<lambda>i. None)\<rparr>"

text \<open>The same with the object store as backend, and with a builder that always fails.\<close>

definition demo_env_oss :: env where
  "demo_env_oss = demo_env\<lparr>oss_Endpoint := ''oss.example.com'', oss_BucketName := ''blobs''\<rparr>"

definition failing_env :: env where
  "failing_env = demo_env\<lparr>packer := (\<lambda>i. failing_run)\<rparr>"

definition demo_opt :: CommitOption where
  "demo_opt = \<lparr>ContainerIDWithType = ''docker://container'',
               TargetRef = ''localhost:5000/nginx:committed'',
               WithPaths = [''/data''], WithoutPaths = [], PauseContainer = True,
               MaximumTimes = 400\<rparr>"

definition demo_world :: world where
  "demo_world = \<lparr>files = Map.empty, trace = [], be = None, mount_paths = [],
                 pushed_config = None, pushed_layers = [], pushed_manifest = None\<rparr>"

definition demo_vars :: commit_vars where
  "demo_vars = \<lparr>cv_world = demo_world, upperBlob = None, mountBlobs = [zero_Blob]\<rparr>"

text \<open>The world and the blobs with which \<open>Commit\<close> calls \<open>pushManifest\<close> when the object
  store is the backend.\<close>

definition demo_upper :: Blob where
  "demo_upper =
     \<lparr>Name = ''blob-upper'', BootstrapName = [],
      Desc = \<lparr>MediaType = MediaTypeNydusBlob, Digest = ''sha256:abcd'', Size = 4,
              Annotations = [LayerAnnotationUncompressed \<mapsto> ''sha256:abcd'',
                             LayerAnnotationNydusBlob \<mapsto> ''true'']\<rparr>\<rparr>"

definition demo_world_merged :: world where
  "demo_world_merged =
     demo_world\<lparr>files := [''bootstrap-merged.tar'' \<mapsto> [1, 2, 3]], be := Some OSSBackend\<rparr>"

definition demo_push :: "(error + pushed) \<times> world" where
  "demo_push =
     pushManifest demo_env_oss demo_image ''sha256:diff'' ''localhost:5000/nginx:committed_nydus_v2''
       ''bootstrap-merged.tar'' [''sha256:abcd''] demo_upper [] demo_world_merged"

definition demo_push_registry :: "(error + pushed) \<times> world" where
  "demo_push_registry =
     pushManifest demo_env demo_image ''sha256:diff'' ''localhost:5000/nginx:committed_nydus_v2''
       ''bootstrap-merged.tar'' [''sha256:abcd''] demo_upper [] (demo_world_merged\<lparr>be := Some Registry\<rparr>)"

section \<open>Properties of the retry helpers\<close>

declare withRetry.simps [simp del]
declare WithRetry_loop.simps [simp del]
declare split_loop.simps [simp del]
declare utoa.simps [simp del]

lemma sint_dec: "sint (x :: go_int) \<noteq> - (2 ^ 63) \<Longrightarrow> sint (x - 1) = sint x - 1"
proof -
  assume a: "sint x \<noteq> - (2 ^ 63)"
  have lo: "- (2 ^ 63) \<le> sint x" using sint_ge [of x] by simp
  have hi: "sint x < 2 ^ 63" using sint_lt [of x] by simp
  have "sint (x - 1) = signed_take_bit 63 (sint x - 1)"
    by (simp add: sint_word_ariths)
  also have "\<dots> = sint x - 1"
    using a lo hi by (intro signed_take_bit_int_eq_self) auto
  finally show ?thesis .
qed

lemma dec_measure: "(x :: go_int) \<noteq> 0 \<Longrightarrow> unat (x - 1) < unat x"
  by (simp add: unat_minus_one unat_gt_0)

lemma withRetry_scripted_step:
  "withRetry (scripted out) t k =
     (case out k of None \<Rightarrow> (None, Suc k)
      | Some e \<Rightarrow> if 0 <s t - 1 then withRetry (scripted out) (t - 1) (Suc k) else (Some e, Suc k))"
  by (subst withRetry.simps) (simp add: scripted_def Let_def split: option.splits)

lemma withRetry_allfail_pos:
  "nat (sint t) = Suc m \<Longrightarrow> \<forall>i \<le> m. out (k + i) \<noteq> None \<Longrightarrow>
   withRetry (scripted out) t k = (out (k + m), k + Suc m)"
proof (induction m arbitrary: t k)
  case 0
  then have t1: "sint t = 1" by simp
  then have "sint (t - 1) = 0" by (simp add: sint_dec)
  then have "\<not> 0 <s t - 1" by (simp add: word_sless_alt)
  moreover from 0 obtain e where "out k = Some e" by auto
  ultimately show ?case by (subst withRetry_scripted_step) simp
next
  case (Suc m)
  then have t1: "sint t = int (Suc (Suc m))" by linarith
  then have d: "sint (t - 1) = int (Suc m)" by (simp add: sint_dec)
  then have pos: "0 <s t - 1" by (simp add: word_sless_alt)
  from Suc.prems obtain e where e: "out k = Some e" by force
  have "withRetry (scripted out) (t - 1) (Suc k) = (out (Suc k + m), Suc k + Suc m)"
  proof (rule Suc.IH)
    show "nat (sint (t - 1)) = Suc m" using d by simp
    show "\<forall>i\<le>m. out (Suc k + i) \<noteq> None" using Suc.prems(2) by (metis Suc_le_mono add_Suc_shift)
  qed
  then show ?case using pos e by (subst withRetry_scripted_step) simp
qed

lemma withRetry_success_pos:
  "j < nat (sint t) \<or> j = 0 \<Longrightarrow> out (k + j) = None \<Longrightarrow> \<forall>i < j. out (k + i) \<noteq> None \<Longrightarrow>
   withRetry (scripted out) t k = (None, k + Suc j)"
proof (induction j arbitrary: t k)
  case 0
  then show ?case by (subst withRetry_scripted_step) simp
next
  case (Suc j)
  then have lt: "Suc j < nat (sint t)" by simp
  then have "sint t \<noteq> - (2 ^ 63)" by auto
  then have d: "sint (t - 1) = sint t - 1" by (simp add: sint_dec)
  then have pos: "0 <s t - 1" using lt by (simp add: word_sless_alt)
  from Suc.prems(3) obtain e where e: "out k = Some e" by force
  have "withRetry (scripted out) (t - 1) (Suc k) = (None, Suc k + Suc j)"
  proof (rule Suc.IH)
    show "j < nat (sint (t - 1)) \<or> j = 0" using d lt by auto
    show "out (Suc k + j) = None" using Suc.prems(2) by simp
    show "\<forall>i<j. out (Suc k + i) \<noteq> None" using Suc.prems(3) by (metis Suc_less_eq add_Suc_shift)
  qed
  then show ?case using pos e by (subst withRetry_scripted_step) simp
qed

lemma withRetry_nonpos:
  "sint t \<le> 0 \<Longrightarrow> sint t \<noteq> - (2 ^ 63) \<Longrightarrow>
   withRetry (scripted out) t k = (out k, Suc k)"
proof -
  assume a: "sint t \<le> 0" "sint t \<noteq> - (2 ^ 63)"
  then have "sint (t - 1) = sint t - 1" by (simp add: sint_dec)
  then have "\<not> 0 <s t - 1" using a by (simp add: word_sless_alt)
  then show ?thesis by (subst withRetry_scripted_step) (simp split: option.splits)
qed

lemma iter_handle_Suc: "iter_handle h (Suc k) s = snd (h (iter_handle h k s))"
  by (induction k arbitrary: s) simp_all

text \<open>Whatever the handler is, \<open>withRetry\<close> does what it does on the script of the handler's
  results, and its final state is the state after that many calls of the handler.\<close>

lemma withRetry_as_script:
  "withRetry h t (iter_handle h k s) =
     (fst (withRetry (scripted (\<lambda>i. fst (h (iter_handle h i s)))) t k),
      iter_handle h (snd (withRetry (scripted (\<lambda>i. fst (h (iter_handle h i s)))) t k)) s)"
proof (induction "unat (t - 1)" arbitrary: t k rule: less_induct)
  case less
  let ?out = "\<lambda>i. fst (h (iter_handle h i s))"
  obtain r s' where hs: "h (iter_handle h k s) = (r, s')" by (cases "h (iter_handle h k s)")
  then have s': "s' = iter_handle h (Suc k) s"
    by (simp add: iter_handle_Suc del: iter_handle.simps(2))
  have outk: "?out k = r" using hs by simp
  show ?case
  proof (cases r)
    case None
    then show ?thesis using hs s' outk
      by (subst withRetry.simps, subst (1 2) withRetry_scripted_step) (simp add: Let_def)
  next
    case (Some e)
    show ?thesis
    proof (cases "0 <s t - 1")
      case False
      then show ?thesis using hs s' outk Some
        by (subst withRetry.simps, subst (1 2) withRetry_scripted_step) (simp add: Let_def)
    next
      case True
      then have "t - 1 \<noteq> 0" by auto
      then have "unat (t - 1 - 1) < unat (t - 1)" by (rule dec_measure)
      from less(1) [OF this, of "Suc k"] show ?thesis using hs s' outk Some True
        by (subst withRetry.simps, subst (1 2) withRetry_scripted_step) (simp add: Let_def)
    qed
  qed
qed

lemma withRetry_scripted_calls: "k < snd (withRetry (scripted out) t k)"
proof (induction "unat (t - 1)" arbitrary: t k rule: less_induct)
  case less
  show ?case
  proof (cases "0 <s t - 1")
    case False
    then show ?thesis by (subst withRetry_scripted_step) (simp split: option.splits)
  next
    case True
    then have "t - 1 \<noteq> 0" by auto
    then have "unat (t - 1 - 1) < unat (t - 1)" by (rule dec_measure)
    from less(1) [OF this, of "Suc k"] have "k < snd (withRetry (scripted out) (t - 1) (Suc k))"
      by simp
    then show ?thesis using True by (subst withRetry_scripted_step) (simp split: option.splits)
  qed
qed

lemma withRetry_min_int:
  "withRetry (scripted (always_fails e)) (- (2 ^ 63)) 0 = (Some e, 2 ^ 63)"
proof -
  have e1: "(- (2 ^ 63) :: go_int) - 1 = 2 ^ 63 - 1" by simp
  have pos: "0 <s (2 ^ 63 - 1 :: go_int)" by (simp add: word_sless_alt)
  have s: "sint (2 ^ 63 - 1 :: go_int) = 2 ^ 63 - 1" by simp
  have "nat (sint (2 ^ 63 - 1 :: go_int)) = Suc (2 ^ 63 - 2)" unfolding s by simp
  then have "withRetry (scripted (always_fails e)) (2 ^ 63 - 1) (Suc 0)
      = (always_fails e (Suc 0 + (2 ^ 63 - 2)), Suc 0 + Suc (2 ^ 63 - 2))"
    by (rule withRetry_allfail_pos) (simp add: always_fails_def)
  then have r: "withRetry (scripted (always_fails e)) (2 ^ 63 - 1) (Suc 0) = (Some e, 2 ^ 63)"
    by (simp add: always_fails_def)
  have "withRetry (scripted (always_fails e)) (- (2 ^ 63)) 0
      = (if 0 <s (- (2 ^ 63) :: go_int) - 1
         then withRetry (scripted (always_fails e)) (- (2 ^ 63) - 1) (Suc 0)
         else (Some e, Suc 0))"
    by (subst withRetry_scripted_step) (simp only: always_fails_def option.case)
  also have "\<dots> = withRetry (scripted (always_fails e)) (2 ^ 63 - 1) (Suc 0)"
    unfolding e1 using pos by (simp only: if_True)
  finally show ?thesis using r by simp
qed

lemma withRetry_three_failures: "withRetry (scripted (always_fails e)) 3 0 = (Some e, 3)"
  by (simp add: withRetry_scripted_step always_fails_def word_sless_alt del: One_nat_def)

text \<open>
  Claim C10, as the code has it. For a handler \<open>handle\<close> started in state \<open>s\<close>, let \<open>out i\<close> be
  the result of its \<open>i\<close>-th call. \<open>withRetry\<close> returns what it returns on that script, and
  leaves the state that the calls of the handler leave: nothing happens between two
  attempts. The handler is called at least once for every \<open>total\<close>. For every \<open>total\<close> other
  than the least integer, it is called exactly \<open>max(total, 1)\<close> times when every call fails,
  whatever the errors are, and the last error is returned; and when call \<open>j\<close> is the first to
  succeed within that bound, the result is nil after exactly \<open>j + 1\<close> calls.
\<close>

theorem withRetry_attempts:
  "(let out = (\<lambda>i. fst (handle (iter_handle handle i s)));
        bound = nat (max (sint ntotal) 1);
        res = withRetry (scripted out) ntotal 0
    in withRetry handle ntotal s = (fst res, iter_handle handle (snd res) s)
       \<and> 1 \<le> snd res
       \<and> (sint ntotal \<noteq> - (2 ^ 63) \<longrightarrow>
            ((\<forall>i < bound. out i \<noteq> None) \<longrightarrow> snd res = bound \<and> fst res = out (bound - 1))
          \<and> (\<forall>j < bound. out j = None \<and> (\<forall>i < j. out i \<noteq> None) \<longrightarrow> res = (None, Suc j))))"
proof -
  let ?out = "\<lambda>i. fst (handle (iter_handle handle i s))"
  let ?bound = "nat (max (sint ntotal) 1)"
  let ?res = "withRetry (scripted ?out) ntotal 0"
  have a: "withRetry handle ntotal s = (fst ?res, iter_handle handle (snd ?res) s)"
    using withRetry_as_script [of handle ntotal 0 s] by simp
  have b: "1 \<le> snd ?res"
    using withRetry_scripted_calls [of 0 ?out ntotal] by simp
  have c: "snd ?res = ?bound \<and> fst ?res = ?out (?bound - 1)"
    if nm: "sint ntotal \<noteq> - (2 ^ 63)" and fails: "\<forall>i < ?bound. ?out i \<noteq> None"
  proof (cases "sint ntotal \<le> 0")
    case True
    then show ?thesis using nm withRetry_nonpos [of ntotal ?out 0] by simp
  next
    case False
    then obtain m where m: "nat (sint ntotal) = Suc m"
      by (metis not_le zero_less_nat_eq gr0_implies_Suc)
    then have bm: "?bound = Suc m" by linarith
    have "withRetry (scripted ?out) ntotal 0 = (?out (0 + m), 0 + Suc m)"
      by (rule withRetry_allfail_pos [OF m]) (use fails bm in auto)
    then show ?thesis using bm by simp
  qed
  have d: "?res = (None, Suc j)"
    if nm: "sint ntotal \<noteq> - (2 ^ 63)" and j: "j < ?bound" "?out j = None" "\<forall>i < j. ?out i \<noteq> None" for j
  proof -
    have "j < nat (sint ntotal) \<or> j = 0" using j(1) by linarith
    from withRetry_success_pos [OF this, of ?out 0] j show ?thesis by simp
  qed
  show ?thesis unfolding Let_def using a b c d by blast
qed

text \<open>Three attempts that fail with an error that \<open>remote.WithRetry\<close> would not retry.\<close>

theorem withRetry_attempts_witness:
  "withRetry (scripted (always_fails (Error ''connect: connection refused''))) 3 0
     = (Some (Error ''connect: connection refused''), 3)
   \<and> sint (3 :: go_int) \<noteq> - (2 ^ 63)
   \<and> RetryWithHTTP (Some (Error ''connect: connection refused''))"
proof -
  let ?h = "scripted (always_fails (Error ''connect: connection refused''))"
  have it: "iter_handle ?h i 0 = i" for i
    by (induction i) (simp_all add: iter_handle_Suc scripted_def del: iter_handle.simps(2))
  have out: "(\<lambda>i. fst (?h (iter_handle ?h i 0))) = always_fails (Error ''connect: connection refused'')"
    by (rule ext) (simp add: it scripted_def)
  have n: "sint (3 :: go_int) \<noteq> - (2 ^ 63)" by simp
  have b: "nat (max (sint (3 :: go_int)) 1) = 3" by simp
  have "withRetry ?h 3 0 = (Some (Error ''connect: connection refused''), 3)"
    using withRetry_attempts [of ?h 0 3] n
    unfolding Let_def out b by (simp add: always_fails_def it prod_eq_iff)
  moreover have "RetryWithHTTP (Some (Error ''connect: connection refused''))"
    by (simp add: RetryWithHTTP_def isErrConnectionRefused_def)
  ultimately show ?thesis using n by simp
qed

text \<open>The claim as it was stated fails at the least integer: the decrement wraps around to
  the greatest one, and a handler that always fails is called \<open>2^63\<close> times, not once.\<close>

theorem withRetry_min_int_counterexample:
  "snd (withRetry (scripted (always_fails (Error ''pack to blob''))) (- (2 ^ 63)) 0) = 2 ^ 63
   \<and> nat (max (sint (- (2 ^ 63) :: go_int)) 1) = 1"
proof
  show "snd (withRetry (scripted (always_fails (Error ''pack to blob''))) (- (2 ^ 63)) 0) = 2 ^ 63"
    by (simp only: withRetry_min_int snd_conv)
  show "nat (max (sint (- (2 ^ 63) :: go_int)) 1) = 1"
    by simp
qed


lemma Contains_sublist: "Contains s sub = sublist sub s"
  by (induction s) (auto simp: sublist_Cons_right)

lemma WithRetry_loop_logged:
  "WithRetry_loop logged_sleep (logged_op out) a err (acts, n) =
     (if a > 0 then
        (if err \<noteq> None \<and> RetryWithHTTP err then (err, acts, n)
         else (let acts1 = (if err \<noteq> None then acts @ [Slept defaultRetryInterval] else acts) in
               case out n of None \<Rightarrow> (None, acts1 @ [Attempt None], Suc n)
               | Some e \<Rightarrow> WithRetry_loop logged_sleep (logged_op out) (a - 1) (Some e)
                              (acts1 @ [Attempt (Some e)], Suc n)))
      else (err, acts, n))"
  by (subst WithRetry_loop.simps)
     (auto simp: logged_sleep_def logged_op_def Let_def split: option.splits)

lemma WithRetry_cases:
  "WithRetry logged_sleep (logged_op out) ([], 0) =
    (case out 0 of None \<Rightarrow> (None, retry_log 2000000000 out 1, 1)
     | Some e0 \<Rightarrow> if RetryWithHTTP (Some e0) then (Some e0, retry_log 2000000000 out 1, 1) else
       (case out 1 of None \<Rightarrow> (None, retry_log 2000000000 out 2, 2)
        | Some e1 \<Rightarrow> if RetryWithHTTP (Some e1) then (Some e1, retry_log 2000000000 out 2, 2) else
           (out 2, retry_log 2000000000 out 3, 3)))"
  by (simp add: WithRetry_def defaultRetryAttempts_def WithRetry_loop_logged Let_def
      defaultRetryInterval_def Second_def numeral_2_eq_2 numeral_3_eq_3 split: option.splits)

text \<open>
  Claim C6. Run \<open>WithRetry\<close> on an operation whose \<open>i\<close>-th call returns \<open>out i\<close>, logging
  every attempt and every sleep, and let \<open>n\<close> be the number of attempts made. Then
  \<open>1 \<le> n \<le> 3\<close>; the result is that of the last attempt; the log is the \<open>n\<close> attempts with a
  sleep of two seconds (\<open>2000000000\<close> ns) between one and the next; every attempt before the
  last failed with an error that is not a scheme-downgrade error, so such an error, like a
  success, ends the loop at once; and fewer than three attempts are made only for one of
  these two reasons. \<open>RetryWithHTTP\<close> holds exactly of the non-nil errors whose message
  contains one of the two texts.
\<close>

theorem WithRetry_policy:
  "(let res = WithRetry logged_sleep (logged_op out) ([], 0);
        err = fst res; acts = fst (snd res); n = snd (snd res)
    in 1 \<le> n \<and> n \<le> 3 \<and> err = out (n - 1)
       \<and> acts = retry_log 2000000000 out n
       \<and> (\<forall>k < n. Suc k < n \<longrightarrow> out k \<noteq> None \<and> \<not> RetryWithHTTP (out k))
       \<and> (n < 3 \<longrightarrow> out (n - 1) = None \<or> RetryWithHTTP (out (n - 1))))
   \<and> RetryWithHTTP e =
       (\<exists>x. e = Some x \<and> (sublist ''server gave HTTP response to HTTPS client'' (Error_msg x)
                          \<or> sublist ''connect: connection refused'' (Error_msg x)))"
proof -
  have 2: "RetryWithHTTP e =
       (\<exists>x. e = Some x \<and> (sublist ''server gave HTTP response to HTTPS client'' (Error_msg x)
                          \<or> sublist ''connect: connection refused'' (Error_msg x)))"
    by (cases e) (simp_all add: RetryWithHTTP_def isErrHTTPResponseToHTTPSClient_def
        isErrConnectionRefused_def Contains_sublist)
  have 1: "(let res = WithRetry logged_sleep (logged_op out) ([], 0);
        err = fst res; acts = fst (snd res); n = snd (snd res)
    in 1 \<le> n \<and> n \<le> 3 \<and> err = out (n - 1)
       \<and> acts = retry_log 2000000000 out n
       \<and> (\<forall>k < n. Suc k < n \<longrightarrow> out k \<noteq> None \<and> \<not> RetryWithHTTP (out k))
       \<and> (n < 3 \<longrightarrow> out (n - 1) = None \<or> RetryWithHTTP (out (n - 1))))"
    unfolding WithRetry_cases Let_def
    by (auto split: option.splits simp: less_Suc_eq numeral_2_eq_2 numeral_3_eq_3 RetryWithHTTP_def)
  show ?thesis using 1 2 by blast
qed

text \<open>A push that fails with a transient error, then with a refused connection: two
  attempts, one sleep of two seconds, and the second error is returned.\<close>

theorem WithRetry_policy_witness:
  "WithRetry logged_sleep (logged_op refused_on_second) ([], 0) =
     (Some (Wrap (Error ''dial tcp 127.0.0.1:5000: connect: connection refused'') ''push blob''),
      [Attempt (Some (Error ''unexpected EOF'')), Slept 2000000000,
       Attempt (Some (Wrap (Error ''dial tcp 127.0.0.1:5000: connect: connection refused'') ''push blob''))],
      2)
   \<and> \<not> RetryWithHTTP (refused_on_second 0) \<and> RetryWithHTTP (refused_on_second 1)"
proof -
  have r0: "\<not> RetryWithHTTP (refused_on_second 0)"
    by (simp add: refused_on_second_def RetryWithHTTP_def isErrHTTPResponseToHTTPSClient_def
        isErrConnectionRefused_def)
  have r1: "RetryWithHTTP (refused_on_second 1)"
    by (simp add: refused_on_second_def RetryWithHTTP_def isErrHTTPResponseToHTTPSClient_def
        isErrConnectionRefused_def)
  let ?res = "WithRetry logged_sleep (logged_op refused_on_second) ([], 0)"
  from WithRetry_policy [of refused_on_second None]
  have p: "1 \<le> snd (snd ?res)" "snd (snd ?res) \<le> 3" "fst ?res = refused_on_second (snd (snd ?res) - 1)"
    "fst (snd ?res) = retry_log 2000000000 refused_on_second (snd (snd ?res))"
    "\<forall>k < snd (snd ?res). Suc k < snd (snd ?res) \<longrightarrow>
        refused_on_second k \<noteq> None \<and> \<not> RetryWithHTTP (refused_on_second k)"
    "snd (snd ?res) < 3 \<longrightarrow> refused_on_second (snd (snd ?res) - 1) = None
        \<or> RetryWithHTTP (refused_on_second (snd (snd ?res) - 1))"
    unfolding Let_def by blast+
  have n2: "snd (snd ?res) = 2"
  proof -
    have "snd (snd ?res) \<noteq> 1" using p(6) r0 by (auto simp: refused_on_second_def)
    moreover have "snd (snd ?res) \<noteq> 3" using p(5) r1 by (auto simp: numeral_3_eq_3)
    ultimately show ?thesis using p(1,2) by linarith
  qed
  have "?res = (refused_on_second 1, retry_log 2000000000 refused_on_second 2, 2)"
    using p(3,4) n2 by (simp add: prod_eq_iff)
  then show ?thesis using r0 r1 by (simp add: refused_on_second_def numeral_2_eq_2)
qed

section \<open>Properties of the split into parts\<close>

lemma split_loop_eq:
  "0 \<le> i \<Longrightarrow> i \<le> n \<Longrightarrow>
   split_loop i n c chunks =
     chunks @ map (\<lambda>k. \<lparr>chunk_Number = int k + 1, chunk_Offset = int k * c, chunk_Size = c\<rparr>) [nat i ..< nat n]"
proof (induction i n c chunks rule: split_loop.induct)
  case (1 i chunkN chunkSize chunks)
  show ?case
  proof (cases "i < chunkN")
    case False
    then show ?thesis using 1 by (subst split_loop.simps) simp
  next
    case True
    then have "[nat i ..< nat chunkN] = nat i # [nat (i + 1) ..< nat chunkN]"
      using 1(2) by (simp add: upt_conv_Cons nat_add_distrib)
    then show ?thesis using True 1 by (subst split_loop.simps) simp
  qed
qed

lemma split_loop_neg: "n \<le> 0 \<Longrightarrow> split_loop 0 n c chunks = chunks"
  by (subst split_loop.simps) (auto simp: split_loop.simps)


lemma go_div_mod_nonneg: "0 \<le> a \<Longrightarrow> 0 < b \<Longrightarrow> go_div a b = a div b \<and> go_mod a b = a mod b"
  by (cases "a = 0") (simp_all add: go_div_def go_mod_def minus_div_mult_eq_mod)

lemma go_div_mod_neg: "a < 0 \<Longrightarrow> 0 < b \<Longrightarrow> go_div a b \<le> 0 \<and> go_mod a b \<le> 0"
proof -
  assume a: "a < 0" and b: "0 < b"
  have d: "go_div a b = - ((- a) div b)" using a b by (simp add: go_div_def)
  have "go_mod a b = - ((- a) - ((- a) div b) * b)" unfolding go_mod_def d by (simp add: algebra_simps)
  also have "\<dots> = - ((- a) mod b)" by (simp add: minus_div_mult_eq_mod)
  finally have "go_mod a b \<le> 0" using b by simp
  moreover have "go_div a b \<le> 0" unfolding d using a b by (simp add: pos_imp_zdiv_nonneg_iff)
  ultimately show ?thesis by simp
qed

lemma full_chunks_sum: "sum_list (map chunk_Size (take k (full_chunks c n))) = int (min k n) * c"
proof -
  have "map chunk_Size (take k (full_chunks c n)) = replicate (min k n) c"
    by (simp add: full_chunks_def take_map comp_def map_replicate_const min.commute)
  then show ?thesis by (simp add: sum_list_replicate)
qed

lemma full_chunks_sum_all: "sum_list (map chunk_Size (full_chunks c n)) = int n * c"
  using full_chunks_sum [of "n" c n] by (simp add: full_chunks_def)

lemma split_ok_full:
  assumes c: "0 < c" and a: "0 \<le> a" and lt: "a div c < 10000"
  shows "\<exists>chunks. splitFileByPartSize a c = Inr chunks
     \<and> chunks = full_chunks c (nat (a div c)) @
         (if a mod c > 0 then [\<lparr>chunk_Number = a div c + 1, chunk_Offset = (a div c) * c, chunk_Size = a mod c\<rparr>] else [])"
proof -
  have n0: "0 \<le> a div c" using a c by (simp add: pos_imp_zdiv_nonneg_iff)
  have l: "split_loop 0 (a div c) c [] = full_chunks c (nat (a div c))"
    using split_loop_eq [of 0 "a div c" c "[]"] n0 by (simp add: full_chunks_def)
  have len: "int (length (full_chunks c (nat (a div c)))) = a div c" using n0 by (simp add: full_chunks_def)
  show ?thesis
    using c lt go_div_mod_nonneg [OF a c] l len
    by (simp add: splitFileByPartSize_def Let_def)
qed

lemma chunk_list_props:
  assumes c: "0 < c" and a: "0 \<le> a"
  defines "chunks \<equiv> full_chunks c (nat (a div c)) @
         (if a mod c > 0 then [\<lparr>chunk_Number = a div c + 1, chunk_Offset = (a div c) * c, chunk_Size = a mod c\<rparr>] else [])"
  shows "chunks_numbered chunks" and "chunks_contiguous a chunks" and "chunks_fixed_size c chunks"
    and "int (length chunks) = parts_required a c"
proof -
  let ?n = "nat (a div c)"
  have n0: "0 \<le> a div c" using a c by (simp add: pos_imp_zdiv_nonneg_iff)
  have lenf: "length (full_chunks c ?n) = ?n" by (simp add: full_chunks_def)
  have m0: "0 \<le> a mod c" "a mod c < c" using c by simp_all
  show "chunks_numbered chunks"
    using n0 by (auto simp: chunks_numbered_def chunks_def full_chunks_def)
  have off: "chunk_Offset (chunks ! k) = int k * c" if "k < length chunks" for k
  proof (cases "k < ?n")
    case True
    then show ?thesis by (simp add: chunks_def nth_append lenf) (simp add: full_chunks_def)
  next
    case False
    then have "k = ?n" "a mod c > 0" using that by (auto simp: chunks_def lenf split: if_splits)
    then show ?thesis using n0 by (simp add: chunks_def nth_append lenf)
  qed
  have tk: "sum_list (map chunk_Size (take k chunks)) = int k * c" if "k < length chunks" for k
  proof -
    have "k \<le> ?n" using that by (auto simp: chunks_def lenf split: if_splits)
    then have "take k chunks = take k (full_chunks c ?n)" by (simp add: chunks_def lenf)
    then show ?thesis using full_chunks_sum [of k c ?n] \<open>k \<le> ?n\<close> by (simp add: min_def)
  qed
  have total: "sum_list (map chunk_Size chunks) = a"
  proof -
    have "sum_list (map chunk_Size chunks) = (a div c) * c + a mod c"
      using full_chunks_sum_all [of c ?n] n0 m0 by (auto simp: chunks_def)
    then show ?thesis by simp
  qed
  show "chunks_contiguous a chunks"
    unfolding chunks_contiguous_def using off tk total a by simp
  have sz: "chunk_Size (chunks ! k) = c" if "k < ?n" for k
    using that by (simp add: chunks_def nth_append lenf) (simp add: full_chunks_def)
  have szl: "0 < chunk_Size (chunks ! k) \<and> chunk_Size (chunks ! k) \<le> c" if "k < length chunks" for k
  proof (cases "k < ?n")
    case True
    then show ?thesis using sz c by simp
  next
    case False
    then have "k = ?n" "a mod c > 0" using that by (auto simp: chunks_def lenf split: if_splits)
    then show ?thesis using m0 by (simp add: chunks_def nth_append lenf)
  qed
  have szf: "chunk_Size (chunks ! k) = c" if "Suc k < length chunks" for k
  proof -
    have "k < ?n" using that by (auto simp: chunks_def lenf split: if_splits)
    then show ?thesis by (rule sz)
  qed
  show "chunks_fixed_size c chunks"
    unfolding chunks_fixed_size_def using szl szf by blast
  show "int (length chunks) = parts_required a c"
  proof (cases "a = 0")
    case True
    then show ?thesis by (simp add: chunks_def parts_required_def full_chunks_def)
  next
    case False
    then have "0 < a" using a by simp
    then show ?thesis using n0 m0 by (auto simp: chunks_def parts_required_def lenf)
  qed
qed

lemma split_neg: "0 < c \<Longrightarrow> a < 0 \<Longrightarrow> splitFileByPartSize a c = Inr []"
  using go_div_mod_neg [of a c] by (simp add: splitFileByPartSize_def Let_def split_loop_neg)

lemma split_fail_iff: "0 < c \<Longrightarrow> isl (splitFileByPartSize a c) = (10000 * c \<le> a)"
proof -
  assume c: "0 < c"
  show ?thesis
  proof (cases "a < 0")
    case True
    then show ?thesis using c split_neg [of c a] by simp
  next
    case False
    then have a: "0 \<le> a" by simp
    have "(10000 \<le> a div c) = (10000 * c \<le> a)"
    proof
      assume "10000 \<le> a div c"
      then have "10000 * c \<le> (a div c) * c" using c by simp
      moreover have "0 \<le> a mod c" using c by simp
      moreover have "a = (a div c) * c + a mod c" by simp
      ultimately show "10000 * c \<le> a" by linarith
    next
      assume "10000 * c \<le> a"
      then have "(10000 * c) div c \<le> a div c" using c by (intro zdiv_mono1) simp_all
      then show "10000 \<le> a div c" using c by simp
    qed
    then show ?thesis using c go_div_mod_nonneg [OF a c]
      by (simp add: splitFileByPartSize_def Let_def)
  qed
qed


lemma split_in_range:
  assumes c: "0 < c" and r: "splitFileByPartSize a c = Inr chunks" and k: "k < length chunks"
  shows "0 \<le> chunk_Offset (chunks ! k) \<and> chunk_Offset (chunks ! k) + chunk_Size (chunks ! k) \<le> a
         \<and> 1 \<le> chunk_Number (chunks ! k) \<and> chunk_Number (chunks ! k) \<le> 10000"
proof (cases "a < 0")
  case True
  then show ?thesis using split_neg [OF c] r k by simp
next
  case False
  then have a: "0 \<le> a" by simp
  have "\<not> isl (splitFileByPartSize a c)" using r by simp
  then have lt: "a div c < 10000" using r c go_div_mod_nonneg [OF a c]
    by (simp add: splitFileByPartSize_def Let_def split: if_splits)
  from split_ok_full [OF c a lt] r
  have ch: "chunks = full_chunks c (nat (a div c)) @
         (if a mod c > 0 then [\<lparr>chunk_Number = a div c + 1, chunk_Offset = (a div c) * c, chunk_Size = a mod c\<rparr>] else [])"
    by simp
  note p = chunk_list_props [OF c a, folded ch]
  have len: "int (length chunks) \<le> 10000"
    using p(4) lt a c by (auto simp: parts_required_def split: if_splits)
  have num: "chunk_Number (chunks ! k) = int k + 1"
    using p(1) k unfolding chunks_numbered_def by (metis (no_types, lifting) add_0 length_map nth_map nth_upt)
  have off: "chunk_Offset (chunks ! k) = sum_list (map chunk_Size (take k chunks))"
    using p(2) k by (simp add: chunks_contiguous_def)
  have nonneg: "\<forall>x \<in> set (map chunk_Size chunks). 0 \<le> x"
    using p(3) unfolding chunks_fixed_size_def by (auto simp: in_set_conv_nth less_imp_le)
  have "sum_list (map chunk_Size (take (Suc k) chunks)) \<le> sum_list (map chunk_Size chunks)"
  proof -
    have "map chunk_Size chunks = map chunk_Size (take (Suc k) chunks) @ map chunk_Size (drop (Suc k) chunks)"
      by (metis append_take_drop_id map_append)
    moreover have "0 \<le> sum_list (map chunk_Size (drop (Suc k) chunks))"
      using nonneg by (intro sum_list_nonneg) (auto dest: in_set_dropD)
    ultimately show ?thesis by (metis add.right_neutral add_left_mono sum_list_append)
  qed
  moreover have "sum_list (map chunk_Size (take (Suc k) chunks)) = chunk_Offset (chunks ! k) + chunk_Size (chunks ! k)"
    using off k by (simp add: take_Suc_conv_app_nth)
  moreover have "sum_list (map chunk_Size chunks) = a" using p(2) a by (simp add: chunks_contiguous_def)
  moreover have "0 \<le> chunk_Offset (chunks ! k)"
    unfolding off using nonneg by (intro sum_list_nonneg) (auto dest: in_set_takeD)
  ultimately show ?thesis using num len k by simp
qed

text \<open>
  Claim C7, as the code has it. For every blob size and every positive chunk size,
  \<open>splitFileByPartSize\<close> fails exactly when the blob holds 10000 full chunks or more; otherwise
  its chunks are numbered from 1, lie one after the other from offset 0 and add up to the
  blob size, all have the chunk size except a last one that may be smaller, and are at most
  10000, exactly as many as the blob needs. It fails whenever more than 10000 parts would be
  needed.
\<close>

theorem splitFileByPartSize_partition:
  "0 < chunkSize \<Longrightarrow>
     (case splitFileByPartSize blobSize chunkSize of
        Inl err \<Rightarrow> 10000 * chunkSize \<le> blobSize
      | Inr chunks \<Rightarrow>
          chunks_numbered chunks \<and> chunks_contiguous blobSize chunks
          \<and> chunks_fixed_size chunkSize chunks
          \<and> length chunks \<le> 10000
          \<and> int (length chunks) = parts_required blobSize chunkSize)
     \<and> (10000 < parts_required blobSize chunkSize \<longrightarrow> isl (splitFileByPartSize blobSize chunkSize))
     \<and> isl (splitFileByPartSize blobSize chunkSize) = (10000 * chunkSize \<le> blobSize)"
proof -
  assume c: "0 < chunkSize"
  have "(case splitFileByPartSize blobSize chunkSize of
        Inl err \<Rightarrow> 10000 * chunkSize \<le> blobSize
      | Inr chunks \<Rightarrow>
          chunks_numbered chunks \<and> chunks_contiguous blobSize chunks
          \<and> chunks_fixed_size chunkSize chunks
          \<and> length chunks \<le> 10000
          \<and> int (length chunks) = parts_required blobSize chunkSize)
     \<and> (10000 < parts_required blobSize chunkSize \<longrightarrow> isl (splitFileByPartSize blobSize chunkSize))"
  proof (cases "blobSize < 0")
    case True
    then show ?thesis using split_neg [OF c True]
      by (simp add: chunks_numbered_def chunks_contiguous_def chunks_fixed_size_def parts_required_def)
  next
    case False
    then have a: "0 \<le> blobSize" by simp
    show ?thesis
    proof (cases "10000 * chunkSize \<le> blobSize")
      case True
      then have "isl (splitFileByPartSize blobSize chunkSize)" using split_fail_iff [OF c] by simp
      then show ?thesis using True by (auto split: sum.splits)
    next
      case False
      then have n: "\<not> isl (splitFileByPartSize blobSize chunkSize)" using split_fail_iff [OF c] by simp
      then have lt: "blobSize div chunkSize < 10000" using c go_div_mod_nonneg [OF a c]
        by (simp add: splitFileByPartSize_def Let_def split: if_splits)
      from split_ok_full [OF c a lt] obtain chunks where
        r: "splitFileByPartSize blobSize chunkSize = Inr chunks" and
        ch: "chunks = full_chunks chunkSize (nat (blobSize div chunkSize)) @
         (if blobSize mod chunkSize > 0 then [\<lparr>chunk_Number = blobSize div chunkSize + 1,
            chunk_Offset = (blobSize div chunkSize) * chunkSize, chunk_Size = blobSize mod chunkSize\<rparr>] else [])"
        by blast
      note p = chunk_list_props [OF c a, folded ch]
      have len: "int (length chunks) \<le> 10000"
        using p(4) lt a c by (auto simp: parts_required_def split: if_splits)
      show ?thesis using r p len by simp
    qed
  qed
  then show ?thesis using split_fail_iff [OF c] by simp
qed

text \<open>Ten bytes in chunks of four.\<close>

theorem splitFileByPartSize_partition_witness:
  "(0::int) < 4 \<and> splitFileByPartSize 10 4 =
      Inr [\<lparr>chunk_Number = 1, chunk_Offset = 0, chunk_Size = 4\<rparr>,
           \<lparr>chunk_Number = 2, chunk_Offset = 4, chunk_Size = 4\<rparr>,
           \<lparr>chunk_Number = 3, chunk_Offset = 8, chunk_Size = 2\<rparr>]
   \<and> chunks_contiguous 10 [\<lparr>chunk_Number = 1, chunk_Offset = 0, chunk_Size = 4\<rparr>,
           \<lparr>chunk_Number = 2, chunk_Offset = 4, chunk_Size = 4\<rparr>,
           \<lparr>chunk_Number = 3, chunk_Offset = 8, chunk_Size = 2\<rparr>]
   \<and> parts_required 10 4 = 3"
proof -
  have e: "splitFileByPartSize 10 4 =
      Inr [\<lparr>chunk_Number = 1, chunk_Offset = 0, chunk_Size = 4\<rparr>,
           \<lparr>chunk_Number = 2, chunk_Offset = 4, chunk_Size = 4\<rparr>,
           \<lparr>chunk_Number = 3, chunk_Offset = 8, chunk_Size = 2\<rparr>]"
    by (simp add: splitFileByPartSize_def go_div_def go_mod_def split_loop.simps)
  have h: "(0::int) < 4" by simp
  show ?thesis using splitFileByPartSize_partition [OF h, of 10] unfolding e by simp
qed

text \<open>The bound of 9999 parts of the claim as it was stated fails for a blob of 19999
  bytes in chunks of two: it needs 10000 parts and gets them.\<close>

theorem splitFileByPartSize_cap_counterexample:
  "parts_returned (splitFileByPartSize 19999 2) = Some 10000 \<and> parts_required 19999 2 = 10000"
proof -
  have c: "(0::int) < 2" and a: "(0::int) \<le> 19999" and lt: "(19999::int) div 2 < 10000" by simp_all
  from split_ok_full [OF c a lt] obtain chunks where
    r: "splitFileByPartSize 19999 2 = Inr chunks" and
    ch: "chunks = full_chunks 2 (nat (19999 div 2)) @
         (if (19999::int) mod 2 > 0 then [\<lparr>chunk_Number = 19999 div 2 + 1,
            chunk_Offset = (19999 div 2) * 2, chunk_Size = 19999 mod 2\<rparr>] else [])"
    by blast
  have "int (length chunks) = parts_required 19999 2"
    using chunk_list_props(4) [OF c a, folded ch] .
  moreover have "parts_required 19999 2 = 10000" by (simp add: parts_required_def)
  ultimately show ?thesis using r by (simp add: parts_returned_def)
qed



section \<open>Properties of the prepared mounts\<close>

lemma findMount_loop_inv:
  "findMount_loop ms p matched = Some m \<Longrightarrow>
   (case matched of None \<Rightarrow> True | Some o' \<Rightarrow> prefix (Destination o') p) \<Longrightarrow>
   prefix (Destination m) p \<and> (m \<in> set ms \<or> matched = Some m)
   \<and> (\<forall>m' \<in> set ms. prefix (Destination m') p \<longrightarrow> length (Destination m') \<le> length (Destination m))
   \<and> (\<forall>o'. matched = Some o' \<longrightarrow> length (Destination o') \<le> length (Destination m))"
proof (induction ms arbitrary: matched)
  case Nil
  then show ?case by (auto split: option.splits)
next
  case (Cons a ms)
  let ?matched' = "(if HasPrefix p (Destination a) then
          (case matched of
             None \<Rightarrow> Some a
           | Some old \<Rightarrow> if length (Destination old) \<le> length (Destination a) then Some a else Some old)
        else matched)"
  have r: "findMount_loop ms p ?matched' = Some m" using Cons.prems(1) by simp
  have pre: "(case ?matched' of None \<Rightarrow> True | Some o' \<Rightarrow> prefix (Destination o') p)"
    using Cons.prems(2) by (auto simp: HasPrefix_def split: option.splits)
  note ih = Cons.IH [OF r pre]
  show ?case
    using ih by (auto simp: HasPrefix_def split: option.splits if_splits)
qed

lemma findMount_None_iff:
  "findMount_loop ms p matched = None \<longleftrightarrow> matched = None \<and> (\<forall>m \<in> set ms. \<not> prefix (Destination m) p)"
  by (induction ms arbitrary: matched) (auto simp: HasPrefix_def split: option.splits)

lemma findMount_longest:
  "findMount ms p = Some m \<Longrightarrow> longest_HasPrefix_mount ms p m"
  using findMount_loop_inv [of ms p None m]
  by (auto simp: findMount_def longest_HasPrefix_mount_def HasPrefix_def)

lemma prepareMounts_loop_ok:
  "prepareMounts_loop Rel J ms ps acc = Inr out \<Longrightarrow>
   \<exists>new. out = acc @ new \<and> length new = length ps \<and>
     (\<forall>i < length ps. \<exists>m r. findMount ms (ps ! i) = Some m \<and> Rel (Destination m) (ps ! i) = Inr r
         \<and> IsAbs (ps ! i) \<and> new ! i = bind_for J m r (ps ! i))"
proof (induction ps arbitrary: acc)
  case Nil
  then show ?case by simp
next
  case (Cons p ps)
  from Cons.prems obtain m r where
    abs: "IsAbs p" and fm: "findMount ms p = Some m" and rel: "Rel (Destination m) p = Inr r"
    and rec: "prepareMounts_loop Rel J ms ps (acc @ [bind_for J m r p]) = Inr out"
    by (auto simp: Let_def bind_for_def TrimLeft_def split: if_splits option.splits sum.splits)
  from Cons.IH [OF rec] obtain new where
    new: "out = (acc @ [bind_for J m r p]) @ new" "length new = length ps"
      "\<forall>i < length ps. \<exists>m r. findMount ms (ps ! i) = Some m \<and> Rel (Destination m) (ps ! i) = Inr r
         \<and> IsAbs (ps ! i) \<and> new ! i = bind_for J m r (ps ! i)"
    by blast
  have "\<forall>i < length (p # ps). \<exists>m' r'. findMount ms ((p # ps) ! i) = Some m' \<and> Rel (Destination m') ((p # ps) ! i) = Inr r'
         \<and> IsAbs ((p # ps) ! i) \<and> (bind_for J m r p # new) ! i = bind_for J m' r' ((p # ps) ! i)"
    using new(3) abs fm rel by (auto simp: nth_Cons split: nat.splits)
  then show ?case using new(1,2) by (intro exI [of _ "bind_for J m r p # new"]) simp
qed


lemma prepareMounts_loop_succeeds:
  "\<forall>p \<in> set ps. IsAbs p \<and> (\<exists>m \<in> set ms. prefix (Destination m) p)
       \<and> (\<forall>m. findMount ms p = Some m \<longrightarrow> \<not> isl (Rel (Destination m) p)) \<Longrightarrow>
   \<not> isl (prepareMounts_loop Rel J ms ps acc)"
proof (induction ps arbitrary: acc)
  case Nil
  then show ?case by simp
next
  case (Cons p ps)
  then have abs: "IsAbs p" and ex: "\<exists>m \<in> set ms. prefix (Destination m) p"
    and rel: "\<forall>m. findMount ms p = Some m \<longrightarrow> \<not> isl (Rel (Destination m) p)"
    by simp_all
  from ex have "findMount ms p \<noteq> None"
    using findMount_None_iff [of ms p None] by (auto simp: findMount_def)
  then obtain m where fm: "findMount ms p = Some m" by auto
  with rel obtain r where r: "Rel (Destination m) p = Inr r" by (cases "Rel (Destination m) p") auto
  have "\<not> isl (prepareMounts_loop Rel J ms ps (acc @ [bind_for J m r p]))"
    by (rule Cons.IH) (use Cons.prems in simp)
  then show ?case using abs fm r by (simp add: Let_def bind_for_def TrimLeft_def)
qed

lemma bind_for_Target: "IsAbs p \<Longrightarrow> \<not> HasPrefix p ''//'' \<Longrightarrow> Target (bind_for J m r p) = tl p"
  by (cases p; cases "tl p") (auto simp: bind_for_def IsAbs_def HasPrefix_def)

text \<open>
  What \<open>prepareMounts\<close> does. When it returns mounts, there is one for each target path, in
  order; the mount for a path \<open>p\<close> comes from the container mount \<open>m\<close> that \<open>findMount\<close> picks,
  whose destination is a string prefix of \<open>p\<close> and is as long as any destination that is; its
  type is \<open>bind\<close>, its source is \<open>Join(Source m, r)\<close> with \<open>r = Rel(Destination m, p)\<close>, its
  target is \<open>p\<close> without its leading slashes, and its options are \<open>ro\<close> and \<open>rbind\<close>. And it
  does return mounts when every target path is absolute, has a container mount whose
  destination is a string prefix of it, and \<open>Rel\<close> succeeds for the mount picked.
\<close>

lemma prepareMounts_result:
  "(prepareMounts Rel JoinPath containerMounts targetPaths = Inr targetMounts \<longrightarrow>
      length targetMounts = length targetPaths
      \<and> (\<forall>i < length targetPaths.
            \<exists>m r. findMount containerMounts (targetPaths ! i) = Some m
              \<and> longest_HasPrefix_mount containerMounts (targetPaths ! i) m
              \<and> Rel (Destination m) (targetPaths ! i) = Inr r
              \<and> targetMounts ! i = bind_for JoinPath m r (targetPaths ! i)
              \<and> (\<not> HasPrefix (targetPaths ! i) ''//'' \<longrightarrow> Target (targetMounts ! i) = tl (targetPaths ! i))))
   \<and> ((\<forall>p \<in> set targetPaths.
          IsAbs p \<and> (\<exists>m \<in> set containerMounts. prefix (Destination m) p)
          \<and> (\<forall>m. findMount containerMounts p = Some m \<longrightarrow> \<not> isl (Rel (Destination m) p)))
        \<longrightarrow> \<not> isl (prepareMounts Rel JoinPath containerMounts targetPaths))"
proof (intro conjI impI)
  assume r: "prepareMounts Rel JoinPath containerMounts targetPaths = Inr targetMounts"
  from prepareMounts_loop_ok [of Rel JoinPath containerMounts targetPaths "[]" targetMounts] r
  have len: "length targetMounts = length targetPaths"
    and el: "\<forall>i < length targetPaths. \<exists>m r. findMount containerMounts (targetPaths ! i) = Some m
         \<and> Rel (Destination m) (targetPaths ! i) = Inr r
         \<and> IsAbs (targetPaths ! i) \<and> targetMounts ! i = bind_for JoinPath m r (targetPaths ! i)"
    by (auto simp: prepareMounts_def)
  show "length targetMounts = length targetPaths" by (rule len)
  show "\<forall>i < length targetPaths.
            \<exists>m r. findMount containerMounts (targetPaths ! i) = Some m
              \<and> longest_HasPrefix_mount containerMounts (targetPaths ! i) m
              \<and> Rel (Destination m) (targetPaths ! i) = Inr r
              \<and> targetMounts ! i = bind_for JoinPath m r (targetPaths ! i)
              \<and> (\<not> HasPrefix (targetPaths ! i) ''//'' \<longrightarrow> Target (targetMounts ! i) = tl (targetPaths ! i))"
  proof (intro allI impI)
    fix i assume "i < length targetPaths"
    with el obtain m r where m: "findMount containerMounts (targetPaths ! i) = Some m"
      "Rel (Destination m) (targetPaths ! i) = Inr r" "IsAbs (targetPaths ! i)"
      "targetMounts ! i = bind_for JoinPath m r (targetPaths ! i)" by blast
    from findMount_longest [OF m(1)] m bind_for_Target [OF m(3)]
    show "\<exists>m r. findMount containerMounts (targetPaths ! i) = Some m
              \<and> longest_HasPrefix_mount containerMounts (targetPaths ! i) m
              \<and> Rel (Destination m) (targetPaths ! i) = Inr r
              \<and> targetMounts ! i = bind_for JoinPath m r (targetPaths ! i)
              \<and> (\<not> HasPrefix (targetPaths ! i) ''//'' \<longrightarrow> Target (targetMounts ! i) = tl (targetPaths ! i))"
      by auto
  qed
next
  assume "\<forall>p \<in> set targetPaths.
          IsAbs p \<and> (\<exists>m \<in> set containerMounts. prefix (Destination m) p)
          \<and> (\<forall>m. findMount containerMounts p = Some m \<longrightarrow> \<not> isl (Rel (Destination m) p))"
  then show "\<not> isl (prepareMounts Rel JoinPath containerMounts targetPaths)"
    unfolding prepareMounts_def by (rule prepareMounts_loop_succeeds)
qed


lemma mount_rewrite_scenario:
  "prepareMounts filepath_Rel filepath_Join [guest_x] [''/guest/x/a'', ''/guest/x/b''] =
     Inr [\<lparr>Type = ''bind'', mnt_Source = ''/host/x/a'', Target = ''guest/x/a'', Options = [''ro'', ''rbind'']\<rparr>,
          \<lparr>Type = ''bind'', mnt_Source = ''/host/x/b'', Target = ''guest/x/b'', Options = [''ro'', ''rbind'']\<rparr>]"
  by code_simp

text \<open>The mount that \<open>findMount\<close> picks in the scenario is the one under which the path
  lies.\<close>

lemma mount_rewrite_scenario_mount:
  "findMount [guest_x] ''/guest/x/a'' = Some guest_x
   \<and> lies_under (Destination guest_x) ''/guest/x/a''
   \<and> filepath_Rel (Destination guest_x) ''/guest/x/a'' = Inr ''a''
   \<and> filepath_Join [Source guest_x, ''a''] = ''/host/x/a''"
  by code_simp

text \<open>
  Claim C9 does not hold of the code. The include path \<open>/data/foobar\<close> lies under the
  destination \<open>/data\<close> of the mount with source \<open>/h1\<close>, and under no other destination; the
  claim gives the bind mount the source \<open>join(/h1, rel(/data, /data/foobar)) = /h1/foobar\<close>.
  \<open>findMount\<close> compares strings, takes the longer destination \<open>/data/foo\<close> of a sibling
  mount, and \<open>prepareMounts\<close> returns the source \<open>join(/h2, ../foobar) = /foobar\<close>.
\<close>

theorem prepareMounts_sibling_prefix:
  "prepareMounts filepath_Rel filepath_Join [data_h1, data_foo_h2] [''/data/foobar''] =
     Inr [\<lparr>Type = ''bind'', mnt_Source = ''/foobar'', Target = ''data/foobar'',
           Options = [''ro'', ''rbind'']\<rparr>]
   \<and> findMount [data_h1, data_foo_h2] ''/data/foobar'' = Some data_foo_h2
   \<and> lies_under (Destination data_h1) ''/data/foobar''
   \<and> \<not> lies_under (Destination data_foo_h2) ''/data/foobar''
   \<and> filepath_Rel (Destination data_h1) ''/data/foobar'' = Inr ''foobar''
   \<and> filepath_Join [Source data_h1, ''foobar''] = ''/h1/foobar''
   \<and> filepath_Rel (Destination data_foo_h2) ''/data/foobar'' = Inr ''../foobar''
   \<and> filepath_Join [Source data_foo_h2, ''../foobar''] = ''/foobar''"
  by code_simp

section \<open>Properties of the packed blobs\<close>

lemma withRetry_scripted_last:
  "fst (withRetry (scripted out) t k) = out (snd (withRetry (scripted out) t k) - 1)"
proof (induction "unat (t - 1)" arbitrary: t k rule: less_induct)
  case less
  show ?case
  proof (cases "0 <s t - 1")
    case False
    then show ?thesis by (subst (1 2) withRetry_scripted_step) (simp split: option.splits)
  next
    case True
    then have "t - 1 \<noteq> 0" by auto
    then have "unat (t - 1 - 1) < unat (t - 1)" by (rule dec_measure)
    from less(1) [OF this, of "Suc k"] show ?thesis using True
      by (subst (1 2) withRetry_scripted_step) (simp split: option.splits)
  qed
qed

lemma withRetry_result_of_last_call:
  "withRetry h t s = (r, s') \<Longrightarrow> \<exists>s0. h s0 = (r, s')"
proof -
  assume a: "withRetry h t s = (r, s')"
  let ?out = "\<lambda>i. fst (h (iter_handle h i s))"
  let ?res = "withRetry (scripted ?out) t 0"
  from withRetry_as_script [of h t 0 s] a
  have r: "r = fst ?res" and s': "s' = iter_handle h (snd ?res) s" by simp_all
  obtain n where n: "snd ?res = Suc n"
    using withRetry_scripted_calls [of 0 ?out t] by (cases "snd ?res") auto
  have "r = ?out n" using r withRetry_scripted_last [of ?out t 0] n by simp
  moreover have "s' = snd (h (iter_handle h n s))"
    using s' n by (simp add: iter_handle_Suc del: iter_handle.simps(2))
  ultimately have "h (iter_handle h n s) = (r, s')" by (simp add: prod_eq_iff)
  then show ?thesis by blast
qed

lemma withRetry_invariant:
  assumes step: "\<And>x r x'. P x \<Longrightarrow> h x = (r, x') \<Longrightarrow> P x'" and init: "P s"
  shows "P (snd (withRetry h t s))"
proof -
  have it: "P (iter_handle h n s)" for n
  proof (induction n)
    case 0
    then show ?case using init by simp
  next
    case (Suc n)
    then show ?case using step [of "iter_handle h n s"]
      by (simp add: iter_handle_Suc prod_eq_iff del: iter_handle.simps(2))
  qed
  show ?thesis using withRetry_as_script [of h t 0 s] it by simp
qed

lemma multi_write_complete:
  "\<not> list_ex (\<lambda>(p, n). n < length p) ws \<Longrightarrow>
   foldl multi_write (blob, hashed, counter) ws =
     (blob @ concat (map fst ws), hashed @ concat (map fst ws), counter + int (length (concat (map fst ws))))"
  by (induction ws arbitrary: blob hashed counter) (auto simp: multi_write_def)

lemma commitUpperByDiff_consistent:
  assumes "commitUpperByDiff env name w = (Inr dg, w')" and "reports_short_writes (packer env (now w))"
  shows "\<exists>content. files w' name = Some content \<and> dg = sha256 env content"
proof -
  let ?run = "packer env (now w)"
  from assms(1) have ok: "feed_err ?run = None" "close_err ?run = None"
    by (auto simp: commitUpperByDiff_def Let_def split: option.splits prod.splits)
  with assms(2) have "\<not> list_ex (\<lambda>(p, n). n < length p) (writes ?run)"
    by (auto simp: reports_short_writes_def)
  from multi_write_complete [OF this, of "[]" "[]" 0] assms(1) show ?thesis
    by (auto simp: commitUpperByDiff_def Let_def emit_def split: option.splits prod.splits)
qed

lemma commitMountByNSEnter_consistent:
  assumes "commitMountByNSEnter env pid dir name w = (Inr dg, w')" and "reports_short_writes (packer env (now w))"
  shows "\<exists>content. files w' name = Some content \<and> dg = sha256 env content"
proof -
  let ?run = "packer env (now w)"
  from assms(1) have ok: "feed_err ?run = None" "close_err ?run = None"
    by (auto simp: commitMountByNSEnter_def Let_def split: option.splits prod.splits)
  with assms(2) have "\<not> list_ex (\<lambda>(p, n). n < length p) (writes ?run)"
    by (auto simp: reports_short_writes_def)
  from multi_write_complete [OF this, of "[]" "[]" 0] assms(1) show ?thesis
    by (auto simp: commitMountByNSEnter_def Let_def emit_def split: option.splits prod.splits)
qed

lemma backend_files: "backend env ref w = (r, w') \<Longrightarrow> files w' = files w"
  by (auto simp: backend_def emit_def split: option.splits if_splits)

lemma pushBlob_desc:
  assumes "pushBlob env name dg ref w = ((Some desc, e), w')"
  shows "files w' = files w \<and> Digest desc = dg \<and> MediaType desc = MediaTypeNydusBlob
         \<and> (\<exists>content. files w name = Some content \<and> Size desc = int (length content))"
  using assms
  by (auto simp: pushBlob_def Let_def emit_def split: option.splits prod.splits sum.splits
      dest: backend_files)

lemma push_packed_consistent:
  assumes r: "push_packed env opt name cm pm (withRetry h 3 (w, None)) = (Inr blob, w')"
    and h: "\<And>x w1 d. h x = (None, w1, d) \<Longrightarrow>
              \<exists>content dg. d = Some dg \<and> files w1 name = Some content \<and> dg = sha256 env content"
  shows "Name blob = name \<and> (\<exists>content. files w' name = Some content
           \<and> Digest (Desc blob) = sha256 env content \<and> Size (Desc blob) = int (length content))"
proof -
  obtain e w1 d where wr: "withRetry h 3 (w, None) = (e, w1, d)" by (metis prod_cases3)
  with r have e: "e = None" by (auto simp: push_packed_def split: option.splits)
  from withRetry_result_of_last_call [OF wr] obtain x where "h x = (None, w1, d)" using e by auto
  from h [OF this] obtain content dg where
    d: "d = Some dg" "files w1 name = Some content" "dg = sha256 env content" by blast
  from r wr e d obtain desc where pb: "pushBlob env name dg (TargetRef opt) w1 = ((Some desc, None), w')"
    and blob: "blob = \<lparr>Name = name, BootstrapName = [], Desc = desc\<rparr>"
    by (auto simp: push_packed_def split: option.splits prod.splits)
  from pushBlob_desc [OF pb] d blob show ?thesis by auto
qed


text \<open>
  Claim C1. Suppose that the packer reports a write that the blob file refused. Then the
  digest that \<open>commitUpperByDiff\<close> and \<open>commitMountByNSEnter\<close> return is the SHA-256 of the
  bytes in the blob file; a descriptor that \<open>pushBlob\<close> returns carries the digest it was given
  and the length of the blob file as its size, whether the push succeeds or not; and so the
  blob of every task of the two waves, after the retries, has in its descriptor the SHA-256
  and the length of its file.
\<close>

theorem blob_descriptor_matches_file:
  "\<forall>i. reports_short_writes (packer env i) \<Longrightarrow>
   (commitUpperByDiff env name w = (Inr dg, w') \<or> commitMountByNSEnter env pid dir name w = (Inr dg, w')
      \<longrightarrow> (\<exists>content. files w' name = Some content \<and> dg = sha256 env content))
   \<and> (pushBlob env name dg ref w = ((Some desc, e), w')
      \<longrightarrow> files w' = files w \<and> Digest desc = dg
          \<and> (\<exists>content. files w name = Some content \<and> Size desc = int (length content)))
   \<and> (upper_task env opt w = (Inr blob, w') \<or> mount_task env opt inspect idx w = (Inr blob, w')
        \<or> appended_task env opt inspect paths idx w = (Inr blob, w')
      \<longrightarrow> (\<exists>content. files w' (Name blob) = Some content
             \<and> Digest (Desc blob) = sha256 env content \<and> Size (Desc blob) = int (length content)))"
proof (intro conjI impI)
  assume rs: "\<forall>i. reports_short_writes (packer env i)"
  {
    assume "commitUpperByDiff env name w = (Inr dg, w') \<or> commitMountByNSEnter env pid dir name w = (Inr dg, w')"
    then show "\<exists>content. files w' name = Some content \<and> dg = sha256 env content"
      using commitUpperByDiff_consistent commitMountByNSEnter_consistent rs by blast
  }
  {
    assume pb: "pushBlob env name dg ref w = ((Some desc, e), w')"
    from pushBlob_desc [OF pb]
    show "files w' = files w" and "Digest desc = dg"
      and "\<exists>content. files w name = Some content \<and> Size desc = int (length content)"
      by auto
  }
  {
    assume t: "upper_task env opt w = (Inr blob, w') \<or> mount_task env opt inspect idx w = (Inr blob, w')
        \<or> appended_task env opt inspect paths idx w = (Inr blob, w')"
    have up: "\<exists>content dg. d = Some dg \<and> files w1 ''blob-upper'' = Some content \<and> dg = sha256 env content"
      if "upper_handle env x = (None, w1, d)" for x w1 d
      using that commitUpperByDiff_consistent [of env "''blob-upper''" "fst x"] rs
      by (auto simp: upper_handle_def split: prod.splits sum.splits)
    have mt: "\<exists>content dg. d = Some dg \<and> files w1 n = Some content \<and> dg = sha256 env content"
      if "mount_handle env p path n x = (None, w1, d)" for x w1 d p path n
      using that commitMountByNSEnter_consistent [of env p path n "fst x"] rs
      by (auto simp: mount_handle_def split: prod.splits sum.splits)
    from t show "\<exists>content. files w' (Name blob) = Some content
             \<and> Digest (Desc blob) = sha256 env content \<and> Size (Desc blob) = int (length content)"
    proof (elim disjE)
      assume "upper_task env opt w = (Inr blob, w')"
      from push_packed_consistent [OF this [unfolded upper_task_def] up] show ?thesis by auto
    next
      assume "mount_task env opt inspect idx w = (Inr blob, w')"
      from push_packed_consistent [OF this [unfolded mount_task_def Let_def] mt] show ?thesis by auto
    next
      assume "appended_task env opt inspect paths idx w = (Inr blob, w')"
      from push_packed_consistent [OF this [unfolded appended_task_def Let_def] mt] show ?thesis by auto
    qed
  }
qed

text \<open>The task of the upper blob in the concrete environment: the first run of the packer
  leaves two bytes in the file and fails, the second writes \<open>abcd\<close>.\<close>

theorem blob_descriptor_matches_file_witness:
  "\<not> isl (fst (upper_task demo_env demo_opt demo_world))
   \<and> files (snd (upper_task demo_env demo_opt demo_world)) ''blob-upper'' = Some [97, 98, 99, 100]
   \<and> Digest (Desc (projr (fst (upper_task demo_env demo_opt demo_world)))) = demo_digest [97, 98, 99, 100]
   \<and> Size (Desc (projr (fst (upper_task demo_env demo_opt demo_world)))) = 4
   \<and> reports_short_writes short_run \<and> reports_short_writes demo_run"
proof -
  let ?r = "upper_task demo_env demo_opt demo_world"
  have ok: "\<not> isl (fst ?r)" by code_simp
  have nm: "Name (projr (fst ?r)) = ''blob-upper''" by code_simp
  have fl: "files (snd ?r) ''blob-upper'' = Some [97, 98, 99, 100]" by code_simp
  have rs1: "reports_short_writes short_run" by code_simp
  have rs2: "reports_short_writes demo_run" by code_simp
  have rs: "\<forall>i. reports_short_writes (packer demo_env i)"
    using rs1 rs2 by (simp add: demo_env_def)
  have eq: "?r = (Inr (projr (fst ?r)), snd ?r)"
    using ok by (cases "fst ?r") (simp_all add: prod_eq_iff)
  from blob_descriptor_matches_file [OF rs, where opt = demo_opt and w = demo_world
      and blob = "projr (fst ?r)" and w' = "snd ?r"] eq
  have "\<exists>content. files (snd ?r) (Name (projr (fst ?r))) = Some content
          \<and> Digest (Desc (projr (fst ?r))) = sha256 demo_env content
          \<and> Size (Desc (projr (fst ?r))) = int (length content)"
    by blast
  then have "Digest (Desc (projr (fst ?r))) = sha256 demo_env [97, 98, 99, 100]
      \<and> Size (Desc (projr (fst ?r))) = 4"
    unfolding nm fl by auto
  then show ?thesis using ok fl rs1 rs2 by (simp add: demo_env_def)
qed

section \<open>Properties of the pause\<close>

text \<open>
  Claim C5. When the pause of the engine succeeds, the wrapper runs the handler, then calls
  \<open>UnPause\<close> once on the state the handler leaves, whether the handler fails or not: the
  final state is that state with one more unpause call at the end of its trace. When the
  handler fails its error is the result, whatever the unpause returns; when it succeeds the
  result is that of the unpause.
\<close>

theorem pause_unpauses_once:
  "engine_Pause env (now (cv_world v)) = None \<Longrightarrow>
   (let h = handle (v\<lparr>cv_world := emit EvPause (cv_world v)\<rparr>);
        res = pause (on_world (cm_Pause env)) (on_world (cm_UnPause env)) handle v
    in snd res = (snd h)\<lparr>cv_world := emit EvUnPause (cv_world (snd h))\<rparr>
       \<and> trace (cv_world (snd res)) = trace (cv_world (snd h)) @ [EvUnPause]
       \<and> unpause_calls (snd res) = unpause_calls (snd h) + 1
       \<and> (\<forall>err. fst h = Some err \<longrightarrow> fst res = Some err)
       \<and> (fst h = None \<longrightarrow> fst res = engine_UnPause env (now (cv_world (snd h)))))"
  by (auto simp: pause_def on_world_def cm_Pause_def cm_UnPause_def Let_def emit_def unpause_calls_def
      split: prod.splits option.splits)

text \<open>The scenario of the pause: the builder fails on all three attempts of the upper blob,
  the container is unpaused once, and the error of the commit comes back.\<close>

theorem pause_unpauses_once_witness:
  "fst (pause (on_world (cm_Pause failing_env)) (on_world (cm_UnPause failing_env))
          (commit failing_env demo_opt demo_inspect) demo_vars)
     = Some (Wrap (Wrap (Error ''nydus-image: exit status 1'') ''pack to blob'') ''commit upper'')
   \<and> unpause_calls (snd (pause (on_world (cm_Pause failing_env)) (on_world (cm_UnPause failing_env))
          (commit failing_env demo_opt demo_inspect) demo_vars)) = 1
   \<and> engine_Pause failing_env (now (cv_world demo_vars)) = None"
proof -
  let ?h = "commit failing_env demo_opt demo_inspect (demo_vars\<lparr>cv_world := emit EvPause (cv_world demo_vars)\<rparr>)"
  let ?res = "pause (on_world (cm_Pause failing_env)) (on_world (cm_UnPause failing_env))
          (commit failing_env demo_opt demo_inspect) demo_vars"
  have p: "engine_Pause failing_env (now (cv_world demo_vars)) = None"
    by (simp add: failing_env_def demo_env_def)
  have h1: "fst ?h = Some (Wrap (Wrap (Error ''nydus-image: exit status 1'') ''pack to blob'') ''commit upper'')"
    by code_simp
  have h2: "unpause_calls (snd ?h) = 0" by code_simp
  from pause_unpauses_once [OF p, of "commit failing_env demo_opt demo_inspect"]
  have "unpause_calls (snd ?res) = unpause_calls (snd ?h) + 1"
    and "\<forall>err. fst ?h = Some err \<longrightarrow> fst ?res = Some err"
    unfolding Let_def by blast+
  then show ?thesis using h1 h2 p by simp
qed

section \<open>Properties of the manifest\<close>

lemma pushManifest_Inr:
  assumes "pushManifest env img diffid ref bname digests upper mounts w = (Inr out, w')"
  shows "\<exists>b. be w = Some b
    \<and> DiffIDs (out_config out) = new_DiffIDs (External b) img diffid upper mounts
    \<and> Layers (out_manifest out) = new_Layers (External b) img (out_bootstrap out) upper mounts
    \<and> MediaType (out_bootstrap out) = MediaTypeImageLayerGzip
    \<and> Annotations (out_bootstrap out) LayerAnnotationNydusBootstrap = Some ''true''
    \<and> Annotations (out_bootstrap out) layerAnnotationNydusCommitBlobs = Some (Join (commitBlobs_of upper mounts) '','')
    \<and> pushed_manifest w' = Some (out_manifest out) \<and> pushed_config w' = Some (out_config out)"
  using assms
  unfolding pushManifest_def Let_def
  by (auto split: option.splits sum.splits prod.splits if_splits
      simp: emit_def LayerAnnotationNydusBootstrap_def layerAnnotationNydusCommitBlobs_def
        layerAnnotationNydusBlobIDs_def LayerAnnotationFSVersion_def)

text \<open>
  Claim C3. Let \<open>pushManifest\<close> succeed with the backend \<open>b\<close>; \<open>out\<close> is what it has pushed.
  If \<open>b\<close> is external, the layers of the manifest are the bootstrap descriptor alone and
  the diff-ids of the configuration are the diff-id of the bootstrap alone, both of length
  1. Otherwise the layers are the blob layers of the base image, the mount blobs, the upper
  blob and the bootstrap, in this order, and the diff-ids are the digests of the same blobs
  followed by the diff-id of the bootstrap. The bootstrap descriptor is the gzipped layer
  that carries the bootstrap annotation.
\<close>

theorem pushManifest_layers:
  "pushManifest env img bootstrapDiffID ref bname digests upper mounts w = (Inr out, w') \<Longrightarrow>
   (\<exists>b. be w = Some b
      \<and> (External b \<longrightarrow>
            Layers (out_manifest out) = [out_bootstrap out] \<and> length (Layers (out_manifest out)) = 1
            \<and> DiffIDs (out_config out) = [bootstrapDiffID] \<and> length (DiffIDs (out_config out)) = 1)
      \<and> (\<not> External b \<longrightarrow>
            Layers (out_manifest out) =
              lowerBlobLayers img @ map Desc mounts @ [Desc upper, out_bootstrap out]
            \<and> DiffIDs (out_config out) =
              map Digest (lowerBlobLayers img) @ map (\<lambda>m. Digest (Desc m)) mounts
              @ [Digest (Desc upper), bootstrapDiffID]))
   \<and> pushed_manifest w' = Some (out_manifest out) \<and> pushed_config w' = Some (out_config out)
   \<and> MediaType (out_bootstrap out) = MediaTypeImageLayerGzip
   \<and> Annotations (out_bootstrap out) LayerAnnotationNydusBootstrap = Some ''true''"
proof -
  assume a: "pushManifest env img bootstrapDiffID ref bname digests upper mounts w = (Inr out, w')"
  from pushManifest_Inr [OF a] obtain b where b: "be w = Some b"
    "DiffIDs (out_config out) = new_DiffIDs (External b) img bootstrapDiffID upper mounts"
    "Layers (out_manifest out) = new_Layers (External b) img (out_bootstrap out) upper mounts"
    "MediaType (out_bootstrap out) = MediaTypeImageLayerGzip"
    "Annotations (out_bootstrap out) LayerAnnotationNydusBootstrap = Some ''true''"
    "pushed_manifest w' = Some (out_manifest out)" "pushed_config w' = Some (out_config out)"
    by blast
  show ?thesis
    using b by (cases "External b") (simp_all add: new_DiffIDs_def new_Layers_def)
qed

text \<open>The manifest of the concrete commit, pushed with the object store and with the
  registry as backend.\<close>

theorem pushManifest_layers_witness:
  "\<not> isl (fst demo_push)
   \<and> Layers (out_manifest (projr (fst demo_push))) = [out_bootstrap (projr (fst demo_push))]
   \<and> DiffIDs (out_config (projr (fst demo_push))) = [''sha256:diff'']
   \<and> \<not> isl (fst demo_push_registry)
   \<and> Layers (out_manifest (projr (fst demo_push_registry))) =
       [demo_base_blob, Desc demo_upper, out_bootstrap (projr (fst demo_push_registry))]
   \<and> DiffIDs (out_config (projr (fst demo_push_registry))) = [''sha256:base'', ''sha256:abcd'', ''sha256:diff'']"
proof -
  have ok1: "\<not> isl (fst demo_push)" by code_simp
  have ok2: "\<not> isl (fst demo_push_registry)" by code_simp
  have eq1: "pushManifest demo_env_oss demo_image ''sha256:diff'' ''localhost:5000/nginx:committed_nydus_v2''
       ''bootstrap-merged.tar'' [''sha256:abcd''] demo_upper [] demo_world_merged
      = (Inr (projr (fst demo_push)), snd demo_push)"
    using ok1 unfolding demo_push_def [symmetric] by (cases "fst demo_push") (simp_all add: prod_eq_iff)
  have eq2: "pushManifest demo_env demo_image ''sha256:diff'' ''localhost:5000/nginx:committed_nydus_v2''
       ''bootstrap-merged.tar'' [''sha256:abcd''] demo_upper [] (demo_world_merged\<lparr>be := Some Registry\<rparr>)
      = (Inr (projr (fst demo_push_registry)), snd demo_push_registry)"
    using ok2 unfolding demo_push_registry_def [symmetric]
    by (cases "fst demo_push_registry") (simp_all add: prod_eq_iff)
  have lb: "lowerBlobLayers demo_image = [demo_base_blob]"
    by (simp add: lowerBlobLayers_def demo_image_def demo_base_blob_def demo_base_bootstrap_def
        MediaTypeNydusBlob_def MediaTypeImageLayerGzip_def)
  have dg: "Digest demo_base_blob = ''sha256:base''" "Digest (Desc demo_upper) = ''sha256:abcd''"
    by (simp_all add: demo_base_blob_def demo_upper_def)
  from pushManifest_layers [OF eq1]
  have 1: "Layers (out_manifest (projr (fst demo_push))) = [out_bootstrap (projr (fst demo_push))]
      \<and> DiffIDs (out_config (projr (fst demo_push))) = [''sha256:diff'']"
    by (auto simp: demo_world_merged_def)
  from pushManifest_layers [OF eq2]
  have 2: "Layers (out_manifest (projr (fst demo_push_registry))) =
       [demo_base_blob, Desc demo_upper, out_bootstrap (projr (fst demo_push_registry))]
      \<and> DiffIDs (out_config (projr (fst demo_push_registry))) = [''sha256:base'', ''sha256:abcd'', ''sha256:diff'']"
    by (auto simp: demo_world_merged_def lb dg)
  show ?thesis using ok1 ok2 1 2 by simp
qed

lemma Split_length: "length (Split s c) = Suc (count_list s c)"
  by (induction s) (auto split: list.splits)

lemma committed_layers_count:
  "committed_layers d =
     (case Annotations d layerAnnotationNydusCommitBlobs of
        None \<Rightarrow> 0
      | Some s \<Rightarrow> if s = [] then 0 else int (count_list s CHR '','') + 1)"
  by (simp add: committed_layers_def Split_length split: option.splits)

text \<open>
  Claim C2 does not hold of the code. The commit of the concrete environment succeeds on a
  base image whose annotation lists two committed blobs, with one mount blob; the claim
  asks for \<open>2 + 1 + 1 = 4\<close> digests in the new annotation, and the new annotation lists the
  two blobs of this commit only.
\<close>

theorem commit_annotation_not_cumulative:
  "commit_count (Commit demo_env demo_opt demo_world) = Some 2
   \<and> committed_layers demo_base_bootstrap = 2
   \<and> FindNydusBootstrapDesc demo_env (image_Manifest demo_image) = Some demo_base_bootstrap
   \<and> length (WithPaths demo_opt) = 1"
proof -
  have 1: "commit_count (Commit demo_env demo_opt demo_world) = Some 2" by code_simp
  have 2: "committed_layers demo_base_bootstrap = 2" by code_simp
  have 3: "FindNydusBootstrapDesc demo_env (image_Manifest demo_image) = Some demo_base_bootstrap"
    by (simp add: demo_env_def demo_image_def)
  have 4: "length (WithPaths demo_opt) = 1" by (simp add: demo_opt_def)
  show ?thesis using 1 2 3 4 by simp
qed

section \<open>Properties of the check of the maximum\<close>

lemma push_packed_error: "push_packed env opt name cm pm r = (Inl e, w') \<Longrightarrow> task_error e"
  by (auto simp: push_packed_def task_error_def split: prod.splits option.splits)

lemma wave1_error:
  "(\<forall>e. fst st = Some e \<longrightarrow> task_error e) \<Longrightarrow>
   fst (wave1_mounts env opt inspect idxs st) = Some e \<Longrightarrow> task_error e"
proof (induction idxs arbitrary: st)
  case Nil
  then show ?case by simp
next
  case (Cons idx rest)
  obtain r w' where t: "mount_task env opt inspect idx (cv_world (snd st)) = (r, w')"
    by (cases "mount_task env opt inspect idx (cv_world (snd st))")
  show ?case
  proof (cases r)
    case (Inl err)
    then have "task_error err" using t push_packed_error by (auto simp: mount_task_def Let_def)
    then have "\<forall>e. fst (first_error (fst st) err, (snd st)\<lparr>cv_world := w'\<rparr>) = Some e \<longrightarrow> task_error e"
      using Cons.prems(1) by (auto simp: first_error_def split: option.splits)
    from Cons.IH [OF this] Cons.prems(2) t Inl show ?thesis by simp
  next
    case (Inr b)
    have "\<forall>e. fst (fst st, (snd st)\<lparr>cv_world := w', mountBlobs := (mountBlobs (snd st))[idx := b]\<rparr>) = Some e \<longrightarrow> task_error e"
      using Cons.prems(1) by simp
    from Cons.IH [OF this] Cons.prems(2) t Inr show ?thesis by simp
  qed
qed

lemma wave2_error:
  "(\<forall>e. fst st = Some e \<longrightarrow> task_error e) \<Longrightarrow>
   fst (wave2_mounts env opt inspect paths idxs st) = Some e \<Longrightarrow> task_error e"
proof (induction idxs arbitrary: st)
  case Nil
  then show ?case by simp
next
  case (Cons idx rest)
  obtain r w' where t: "appended_task env opt inspect paths idx (cv_world (snd st)) = (r, w')"
    by (cases "appended_task env opt inspect paths idx (cv_world (snd st))")
  show ?case
  proof (cases r)
    case (Inl err)
    then have "task_error err" using t push_packed_error by (auto simp: appended_task_def Let_def)
    then have "\<forall>e. fst (first_error (fst st) err, (snd st)\<lparr>cv_world := w'\<rparr>) = Some e \<longrightarrow> task_error e"
      using Cons.prems(1) by (auto simp: first_error_def split: option.splits)
    from Cons.IH [OF this] Cons.prems(2) t Inl show ?thesis by simp
  next
    case (Inr b)
    have "\<forall>e. fst (fst st, (snd st)\<lparr>cv_world := w', mountBlobs := mountBlobs (snd st) @ [b]\<rparr>) = Some e \<longrightarrow> task_error e"
      using Cons.prems(1) by simp
    from Cons.IH [OF this] Cons.prems(2) t Inr show ?thesis by simp
  qed
qed

lemma commit_error: "fst (commit env opt inspect v) = Some e \<Longrightarrow> task_error e"
proof -
  assume a: "fst (commit env opt inspect v) = Some e"
  let ?st0 = "(case upper_task env opt (cv_world v) of
                   (Inl err, w') \<Rightarrow> (Some err, v\<lparr>cv_world := w'\<rparr>)
                 | (Inr b, w') \<Rightarrow> (None, v\<lparr>cv_world := w', upperBlob := Some b\<rparr>))"
  let ?st1 = "wave1_mounts env opt inspect [0 ..< length (WithPaths opt)] ?st0"
  have 0: "\<forall>e. fst ?st0 = Some e \<longrightarrow> task_error e"
    using push_packed_error by (auto simp: upper_task_def split: prod.splits sum.splits)
  have 1: "\<forall>e. fst ?st1 = Some e \<longrightarrow> task_error e"
    using wave1_error [OF 0] by blast
  show ?thesis
  proof (cases "fst ?st1")
    case (Some err)
    then show ?thesis using a 1 by (simp add: commit_def Let_def)
  next
    case None
    have "\<forall>e. fst (None :: error option, snd ?st1) = Some e \<longrightarrow> task_error e" by simp
    from wave2_error [OF this] a None show ?thesis by (simp add: commit_def Let_def)
  qed
qed

lemma maximum_reached_not_task: "\<not> task_error (maximum_reached n)"
  by (simp add: task_error_def maximum_reached_def nil_dereference_def)

lemma Commit_run_error: "fst (Commit_run env opt ref inspect img w) \<noteq> Inl (maximum_reached n)"
proof
  assume a: "fst (Commit_run env opt ref inspect img w) = Inl (maximum_reached n)"
  let ?v0 = "\<lparr>cv_world = w\<lparr>mount_paths := []\<rparr>, upperBlob = None,
                mountBlobs = replicate (length (WithPaths opt)) zero_Blob\<rparr>"
  have nd: "nil_dereference \<noteq> maximum_reached n" by (simp add: maximum_reached_def nil_dereference_def)
  have w: "\<And>e m. Wrap e m \<noteq> maximum_reached n" by (simp add: maximum_reached_def)
  show False
  proof (cases "PauseContainer opt")
    case True
    then show ?thesis using a nd w
      by (auto simp: Commit_run_def Let_def split: prod.splits option.splits sum.splits)
  next
    case False
    obtain r v where c: "commit env opt inspect ?v0 = (r, v)" by (cases "commit env opt inspect ?v0")
    show ?thesis
    proof (cases r)
      case None
      then show ?thesis using a nd w c False
        by (auto simp: Commit_run_def Let_def split: prod.splits option.splits sum.splits)
    next
      case (Some err)
      then have "task_error err" using commit_error [of env opt inspect ?v0 err] c by simp
      moreover have "err = maximum_reached n" using a c False Some by (simp add: Commit_run_def Let_def)
      ultimately show ?thesis using maximum_reached_not_task by simp
    qed
  qed
qed

lemma pullBootstrap_trace:
  "packers_started (snd (pullBootstrap env ref name w)) = packers_started w"
  by (auto simp: pullBootstrap_def Let_def emit_def packers_started_def split: option.splits sum.splits)

lemma pullBootstrap_count:
  "pullBootstrap env ref name w = (Inr (img, n), w') \<Longrightarrow>
   \<exists>d. parser_Parse env = Inr (Some img) \<and> FindNydusBootstrapDesc env (image_Manifest img) = Some d
       \<and> n = committed_layers d"
  by (auto simp: pullBootstrap_def Let_def split: option.splits sum.splits)


text \<open>
  Claim C4. When the steps before the check succeed, the count that \<open>Commit\<close> compares is
  that of the commit annotation of the base bootstrap; if it is at least \<open>MaximumTimes\<close>,
  \<open>Commit\<close> fails with the error of the maximum and no packer has been started; if it is
  below, \<open>Commit\<close> does not fail with that error. When a step before the check fails,
  \<open>Commit\<close> fails with another error, again before any packer. An annotation that is absent
  or empty counts as zero, and any other as one more than it has commas.
\<close>

theorem Commit_maximum_gate:
  "(let insp = cm_Inspect env w;
        pb = pullBootstrap env (inspect_Image (projr (fst insp))) ''bootstrap-base'' (snd insp);
        n = snd (projr (fst pb));
        res = Commit env opt w
    in (reaches_check env opt w \<longrightarrow>
          (\<exists>img d. parser_Parse env = Inr (Some img)
              \<and> FindNydusBootstrapDesc env (image_Manifest img) = Some d \<and> n = committed_layers d)
          \<and> (MaximumTimes opt \<le> n \<longrightarrow>
                fst res = Inl (maximum_reached (MaximumTimes opt))
                \<and> packers_started (snd res) = packers_started w)
          \<and> (n < MaximumTimes opt \<longrightarrow> fst res \<noteq> Inl (maximum_reached (MaximumTimes opt))))
       \<and> (\<not> reaches_check env opt w \<longrightarrow>
            isl (fst res) \<and> fst res \<noteq> Inl (maximum_reached (MaximumTimes opt))
            \<and> packers_started (snd res) = packers_started w))
   \<and> (Annotations d layerAnnotationNydusCommitBlobs = None
        \<or> Annotations d layerAnnotationNydusCommitBlobs = Some [] \<longrightarrow> committed_layers d = 0)
   \<and> (\<forall>s. Annotations d layerAnnotationNydusCommitBlobs = Some s \<and> s \<noteq> []
          \<longrightarrow> committed_layers d = int (count_list s CHR '','') + 1)"
proof -
  obtain ri w1 where ie: "cm_Inspect env w = (ri, w1)" by (cases "cm_Inspect env w")
  obtain rp w2 where pbe: "pullBootstrap env (inspect_Image (projr ri)) ''bootstrap-base'' w1 = (rp, w2)"
    by (cases "pullBootstrap env (inspect_Image (projr ri)) ''bootstrap-base'' w1")
  let ?n = "snd (projr rp)"
  let ?res = "Commit env opt w"
  have mw: "\<And>e m. Inl (Wrap e m) \<noteq> (Inl (maximum_reached (MaximumTimes opt)) :: error + pushed)"
    by (simp add: maximum_reached_def)
  have p1: "packers_started w1 = packers_started w"
    using ie by (auto simp: cm_Inspect_def emit_def packers_started_def)
  have p2: "packers_started w2 = packers_started w"
    using pullBootstrap_trace [of env "inspect_Image (projr ri)" "''bootstrap-base''" w1] pbe p1
    by simp
  have rc: "reaches_check env opt w =
      (\<not> isl (AppendNydusSuffix (ParseDockerRef env) (TargetRef opt)) \<and> \<not> isl ri \<and> \<not> isl rp)"
    using ie pbe by (simp add: reaches_check_def)
  have main: "(reaches_check env opt w \<longrightarrow>
          (\<exists>img d. parser_Parse env = Inr (Some img)
              \<and> FindNydusBootstrapDesc env (image_Manifest img) = Some d \<and> ?n = committed_layers d)
          \<and> (MaximumTimes opt \<le> ?n \<longrightarrow>
                fst ?res = Inl (maximum_reached (MaximumTimes opt))
                \<and> packers_started (snd ?res) = packers_started w)
          \<and> (?n < MaximumTimes opt \<longrightarrow> fst ?res \<noteq> Inl (maximum_reached (MaximumTimes opt))))
       \<and> (\<not> reaches_check env opt w \<longrightarrow>
            isl (fst ?res) \<and> fst ?res \<noteq> Inl (maximum_reached (MaximumTimes opt))
            \<and> packers_started (snd ?res) = packers_started w)"
  proof (cases "AppendNydusSuffix (ParseDockerRef env) (TargetRef opt)")
    case (Inl err)
    then show ?thesis using mw rc by (simp add: Commit_def)
  next
    case t: (Inr targetRef)
    show ?thesis
    proof (cases ri)
      case (Inl err)
      then show ?thesis using t ie mw p1 rc by (simp add: Commit_def)
    next
      case i: (Inr inspect)
      show ?thesis
      proof (cases rp)
        case (Inl err)
        then show ?thesis using t i ie pbe mw p2 rc by (simp add: Commit_def)
      next
        case (Inr pr)
        obtain img k where pr: "pr = (img, k)" by (cases pr)
        have c: "?res = (if MaximumTimes opt \<le> k then (Inl (maximum_reached (MaximumTimes opt)), w2)
                     else Commit_run env opt targetRef inspect img w2)"
          using t i ie pbe Inr pr by (simp add: Commit_def)
        have pbe2: "pullBootstrap env (inspect_Image inspect) ''bootstrap-base'' w1 = (Inr (img, k), w2)"
          using pbe i Inr pr by simp
        from pullBootstrap_count [OF pbe2] have 1: "\<exists>img d. parser_Parse env = Inr (Some img)
              \<and> FindNydusBootstrapDesc env (image_Manifest img) = Some d \<and> k = committed_layers d"
          by blast
        have 2: "MaximumTimes opt \<le> k \<longrightarrow> fst ?res = Inl (maximum_reached (MaximumTimes opt))
                \<and> packers_started (snd ?res) = packers_started w"
          unfolding c using p2 by simp
        have 3: "k < MaximumTimes opt \<longrightarrow> fst ?res \<noteq> Inl (maximum_reached (MaximumTimes opt))"
          unfolding c using Commit_run_error by simp
        have "reaches_check env opt w" using rc t i Inr by simp
        then show ?thesis using 1 2 3 Inr pr by simp
      qed
    qed
  qed
  have C: "Annotations d layerAnnotationNydusCommitBlobs = None
        \<or> Annotations d layerAnnotationNydusCommitBlobs = Some [] \<longrightarrow> committed_layers d = 0"
    by (auto simp: committed_layers_count)
  have D: "\<forall>s. Annotations d layerAnnotationNydusCommitBlobs = Some s \<and> s \<noteq> []
          \<longrightarrow> committed_layers d = int (count_list s CHR '','') + 1"
    by (auto simp: committed_layers_count)
  show ?thesis unfolding Let_def using main C D ie pbe by simp
qed

text \<open>The concrete commit with a maximum of two: the base lists two committed blobs, and
  the commit is refused before any packer starts.\<close>

theorem Commit_maximum_gate_witness:
  "reaches_check demo_env (demo_opt\<lparr>MaximumTimes := 2\<rparr>) demo_world
   \<and> committed_layers demo_base_bootstrap = 2
   \<and> fst (Commit demo_env (demo_opt\<lparr>MaximumTimes := 2\<rparr>) demo_world) = Inl (maximum_reached 2)
   \<and> packers_started (snd (Commit demo_env (demo_opt\<lparr>MaximumTimes := 2\<rparr>) demo_world)) = 0
   \<and> fst (Commit demo_env demo_opt demo_world) \<noteq> Inl (maximum_reached 400)"
proof -
  let ?opt = "demo_opt\<lparr>MaximumTimes := 2\<rparr>"
  have rc: "reaches_check demo_env ?opt demo_world" by code_simp
  have rc4: "reaches_check demo_env demo_opt demo_world" by code_simp
  have n: "snd (projr (fst (pullBootstrap demo_env (inspect_Image (projr (fst (cm_Inspect demo_env demo_world))))
              ''bootstrap-base'' (snd (cm_Inspect demo_env demo_world))))) = 2"
    by code_simp
  have m: "MaximumTimes ?opt = 2" "MaximumTimes demo_opt = 400" by (simp_all add: demo_opt_def)
  have p0: "packers_started demo_world = 0" by code_simp
  have c2: "committed_layers demo_base_bootstrap = 2" by code_simp
  from Commit_maximum_gate [of demo_env demo_world ?opt] rc
  have "MaximumTimes ?opt \<le> 2 \<longrightarrow>
          fst (Commit demo_env ?opt demo_world) = Inl (maximum_reached (MaximumTimes ?opt))
          \<and> packers_started (snd (Commit demo_env ?opt demo_world)) = packers_started demo_world"
    unfolding Let_def n by blast
  then have 1: "fst (Commit demo_env ?opt demo_world) = Inl (maximum_reached 2)
      \<and> packers_started (snd (Commit demo_env ?opt demo_world)) = 0"
    unfolding m p0 by simp
  from Commit_maximum_gate [of demo_env demo_world demo_opt] rc4
  have "2 < MaximumTimes demo_opt \<longrightarrow>
          fst (Commit demo_env demo_opt demo_world) \<noteq> Inl (maximum_reached (MaximumTimes demo_opt))"
    unfolding Let_def n by blast
  then have 2: "fst (Commit demo_env demo_opt demo_world) \<noteq> Inl (maximum_reached 400)"
    unfolding m by simp
  show ?thesis using rc c2 1 2 by simp
qed

section \<open>Properties of the target reference\<close>

text \<open>
  What \<open>AppendNydusSuffix\<close> does on its own result. Let it succeed on \<open>x\<close> with \<open>y\<close>, for any
  parser. If the reference parsed from \<open>x\<close>, with its tag, already ends with the suffix,
  then \<open>y\<close> is \<open>x\<close> and the second application returns it again. Otherwise \<open>y\<close> is the printed
  reference with the suffix at the end of its tag; the second application returns \<open>y\<close>
  unchanged whenever the parser reads \<open>y\<close> back as that reference, and fails whenever the
  parser rejects \<open>y\<close>.
\<close>

lemma AppendNydusSuffix_second_application:
  "AppendNydusSuffix P x = Inr y \<Longrightarrow>
   (let named = TagNameOnly (projr (P x)) in
      (HasSuffix (String named) NydusRefSuffix \<longrightarrow> y = x \<and> AppendNydusSuffix P y = Inr y)
    \<and> (\<not> HasSuffix (String named) NydusRefSuffix \<longrightarrow>
          y = String named @ NydusRefSuffix
          \<and> ref_tag named \<noteq> None \<and> ref_digest named = None
          \<and> y = String (named\<lparr>ref_tag := Some (the (ref_tag named) @ NydusRefSuffix)\<rparr>)
          \<and> (P y = Inr (named\<lparr>ref_tag := Some (the (ref_tag named) @ NydusRefSuffix)\<rparr>)
               \<longrightarrow> AppendNydusSuffix P y = Inr y)
          \<and> (isl (P y) \<longrightarrow> isl (AppendNydusSuffix P y))))"
proof -
  assume a: "AppendNydusSuffix P x = Inr y"
  then obtain n where n: "P x = Inr n" and nd: "\<not> Digested n"
    by (auto simp: AppendNydusSuffix_def split: sum.splits if_splits)
  let ?named = "TagNameOnly n"
  have dg: "ref_digest ?named = None" using nd by (simp add: Digested_def TagNameOnly_def)
  have tg: "ref_tag ?named \<noteq> None" using nd by (auto simp: Digested_def TagNameOnly_def)
  then obtain t where t: "ref_tag ?named = Some t" by auto
  show ?thesis
  proof (cases "HasSuffix (String ?named) NydusRefSuffix")
    case True
    then have "y = x" using a n nd by (simp add: AppendNydusSuffix_def Let_def)
    then show ?thesis using True a n by (simp add: Let_def)
  next
    case False
    then have y: "y = String ?named @ NydusRefSuffix" using a n nd by (simp add: AppendNydusSuffix_def Let_def)
    let ?n2 = "?named\<lparr>ref_tag := Some (the (ref_tag ?named) @ NydusRefSuffix)\<rparr>"
    have y2: "y = String ?n2" using y t dg by (simp add: String_def)
    have again: "AppendNydusSuffix P y = Inr y" if p: "P y = Inr ?n2"
    proof -
      have "\<not> Digested ?n2" using dg by (simp add: Digested_def)
      moreover have "TagNameOnly ?n2 = ?n2" by (simp add: TagNameOnly_def)
      moreover have "HasSuffix (String ?n2) NydusRefSuffix"
        using y y2 by (simp add: HasSuffix_def suffix_def)
      ultimately show ?thesis using p by (simp add: AppendNydusSuffix_def Let_def)
    qed
    have fail: "isl (AppendNydusSuffix P y)" if "isl (P y)"
      using that by (auto simp: AppendNydusSuffix_def split: sum.splits)
    show ?thesis using False y y2 dg tg again fail n by (simp add: Let_def)
  qed
qed

text \<open>The scenario of the suffix: a tagged reference gets the suffix, and the result is
  returned unchanged.\<close>

lemma AppendNydusSuffix_suffix_scenario:
  "AppendNydusSuffix docker_ParseDockerRef ''example.com/lib/foo:1.2'' = Inr ''example.com/lib/foo:1.2_nydus_v2''
   \<and> AppendNydusSuffix docker_ParseDockerRef ''example.com/lib/foo:1.2_nydus_v2'' = Inr ''example.com/lib/foo:1.2_nydus_v2''
   \<and> docker_ParseDockerRef ''example.com/lib/foo:1.2_nydus_v2''
        = Inr \<lparr>ref_name = ''example.com/lib/foo'', ref_tag = Some ''1.2_nydus_v2'', ref_digest = None\<rparr>"
proof -
  let ?x = "''example.com/lib/foo:1.2''" and ?y = "''example.com/lib/foo:1.2_nydus_v2''"
  have a: "AppendNydusSuffix docker_ParseDockerRef ?x = Inr ?y" by code_simp
  have px: "docker_ParseDockerRef ?x = Inr \<lparr>ref_name = ''example.com/lib/foo'', ref_tag = Some ''1.2'', ref_digest = None\<rparr>"
    by code_simp
  have py: "docker_ParseDockerRef ?y = Inr \<lparr>ref_name = ''example.com/lib/foo'', ref_tag = Some ''1.2_nydus_v2'', ref_digest = None\<rparr>"
    by code_simp
  have ns: "\<not> HasSuffix (String (TagNameOnly \<lparr>ref_name = ''example.com/lib/foo'', ref_tag = Some ''1.2'', ref_digest = None\<rparr>)) NydusRefSuffix"
    by code_simp
  let ?n0 = "\<lparr>ref_name = ''example.com/lib/foo'', ref_tag = Some ''1.2'', ref_digest = None\<rparr>"
  have nm: "TagNameOnly (projr (docker_ParseDockerRef ?x)) = ?n0" by code_simp
  have ns0: "\<not> HasSuffix (String ?n0) NydusRefSuffix" by code_simp
  note th = AppendNydusSuffix_second_application [OF a, unfolded Let_def nm]
  from th ns0
  have imp: "docker_ParseDockerRef ?y = Inr (?n0\<lparr>ref_tag := Some (the (ref_tag ?n0) @ NydusRefSuffix)\<rparr>)
          \<longrightarrow> AppendNydusSuffix docker_ParseDockerRef ?y = Inr ?y"
    by blast
  have eq: "?n0\<lparr>ref_tag := Some (the (ref_tag ?n0) @ NydusRefSuffix)\<rparr>
      = \<lparr>ref_name = ''example.com/lib/foo'', ref_tag = Some ''1.2_nydus_v2'', ref_digest = None\<rparr>"
    by (simp add: NydusRefSuffix_def)
  from imp py have "AppendNydusSuffix docker_ParseDockerRef ?y = Inr ?y"
    unfolding eq by blast
  then show ?thesis using a py by simp
qed

text \<open>
  Claim C8 does not hold of the code. The reference \<open>example.com/lib/foo\<close> with a tag of 120
  characters is a valid reference. \<open>AppendNydusSuffix\<close> succeeds on it and returns the
  reference with the suffix at the end of the tag, unchecked: a tag of 129 characters, which
  the parser rejects. So the second application does not return the result of the first
  unchanged, as the claim says: it fails.
\<close>

theorem AppendNydusSuffix_long_tag:
  "\<not> isl (docker_ParseDockerRef (''example.com/lib/foo:'' @ long_tag))
   \<and> AppendNydusSuffix docker_ParseDockerRef (''example.com/lib/foo:'' @ long_tag)
       = Inr (''example.com/lib/foo:'' @ long_tag @ NydusRefSuffix)
   \<and> isl (docker_ParseDockerRef (''example.com/lib/foo:'' @ long_tag @ NydusRefSuffix))
   \<and> isl (AppendNydusSuffix docker_ParseDockerRef (''example.com/lib/foo:'' @ long_tag @ NydusRefSuffix))
   \<and> length long_tag = 120 \<and> length (long_tag @ NydusRefSuffix) = 129"
  by code_simp

end
